theory Spec2Isabelle
  imports Complex_Main
begin

section \<open>JavaScript values\<close>

text \<open>
  The frontend reads the bodies of HTTP responses with \<^verbatim>\<open>response.json()\<close> and then
  reads properties of the parsed value. TypeScript types them \<^verbatim>\<open>any\<close>, so the model keeps
  the run-time values: a parsed JSON document, or \<^verbatim>\<open>undefined\<close> for a missing property.
  An object is the list of its properties; a property is looked up with \<open>map_of\<close>.
  A number is only ever tested for being zero.
\<close>

datatype jsval =
    Undefined
  | JNull
  | JBool bool
  | JNum real
  | JStr string
  | JArr "jsval list"
  | JObj "(string \<times> jsval) list"

text \<open>
  What can be thrown: \<^verbatim>\<open>new Error(message)\<close> of the source, the \<^verbatim>\<open>TypeError\<close> of a
  property read on \<^verbatim>\<open>null\<close> or \<^verbatim>\<open>undefined\<close> (and of a failed \<^verbatim>\<open>fetch\<close>), and the
  \<^verbatim>\<open>SyntaxError\<close> of \<^verbatim>\<open>response.json()\<close> on a body that is not JSON.
\<close>

datatype error = Error string | TypeError | SyntaxError

definition nullish :: "jsval \<Rightarrow> bool" where
  "nullish v = (v = Undefined \<or> v = JNull)"

text \<open>The truth value JavaScript gives a value in \<^verbatim>\<open>if (v)\<close>, \<^verbatim>\<open>!v\<close> and \<^verbatim>\<open>a && b\<close>.\<close>

fun truthy :: "jsval \<Rightarrow> bool" where
  "truthy Undefined = False"
| "truthy JNull = False"
| "truthy (JBool b) = b"
| "truthy (JNum x) = (x \<noteq> 0)"
| "truthy (JStr s) = (s \<noteq> [])"
| "truthy (JArr xs) = True"
| "truthy (JObj fs) = True"

text \<open>
  \<^verbatim>\<open>v.k\<close> for the property names this program reads (\<^verbatim>\<open>access_token\<close>, \<^verbatim>\<open>id_token\<close>,
  \<^verbatim>\<open>auth_url\<close>, \<^verbatim>\<open>messages\<close>, \<^verbatim>\<open>type\<close>, \<^verbatim>\<open>content\<close>): none of them is a built-in property of
  a string, a number, a boolean or an array, so only an object can have one.
  On \<^verbatim>\<open>null\<close> and \<^verbatim>\<open>undefined\<close> the read throws.
\<close>

fun propOf :: "jsval \<Rightarrow> string \<Rightarrow> jsval" where
  "propOf (JObj fs) k = (case map_of fs k of None \<Rightarrow> Undefined | Some v \<Rightarrow> v)"
| "propOf v k = Undefined"

definition getProp :: "jsval \<Rightarrow> string \<Rightarrow> error + jsval" where
  "getProp v k = (if nullish v then Inl TypeError else Inr (propOf v k))"

text \<open>Decimal rendering of a number, as in \<^verbatim>\<open>`${response.status}`\<close>.\<close>

function showNat :: "nat \<Rightarrow> string" where
  "showNat n =
     (if n < 10 then [''0123456789'' ! n]
      else showNat (n div 10) @ [''0123456789'' ! (n mod 10)])"
  by pat_completeness auto
termination
  by (relation "measure id") auto

declare showNat.simps [simp del]

section \<open>The network\<close>

text \<open>
  \<^verbatim>\<open>fetch(url, init)\<close>. A request is the URL and the options passed; its \<open>body\<close> is the
  value that \<^verbatim>\<open>JSON.stringify\<close> turns into the text sent. A response carries the
  status, the status text and the body; \<open>payload\<close> is the body as parsed JSON, \<open>None\<close> when
  the body is not JSON. \<^verbatim>\<open>response.ok\<close> is true for the statuses 200 to 299.
\<close>

record RequestInit =
  "method" :: "string option"
  credentials :: "string option"
  headers :: "(string \<times> jsval) list"
  body :: "jsval option"

record request =
  url :: string
  init :: RequestInit

record response =
  status :: nat
  statusText :: string
  payload :: "jsval option"

definition ok :: "response \<Rightarrow> bool" where
  "ok r = (200 \<le> status r \<and> status r \<le> 299)"

definition json :: "response \<Rightarrow> error + jsval" where
  "json r = (case payload r of None \<Rightarrow> Inl SyntaxError | Some v \<Rightarrow> Inr v)"

text \<open>The promise of a \<^verbatim>\<open>fetch\<close> rejects (no response at all) or resolves with a response.\<close>

datatype fetch_result = Rejected error | Resolved response

text \<open>
  The rest of the world answers requests: \<open>srv n q\<close> is the outcome of request \<open>q\<close> when
  it is the \<open>n\<close>-th request the page sends. The page's side of the network is the list of
  the requests sent so far, oldest first.
\<close>

type_synonym server = "nat \<Rightarrow> request \<Rightarrow> fetch_result"

definition fetch :: "server \<Rightarrow> string \<Rightarrow> RequestInit \<Rightarrow> request list \<Rightarrow> fetch_result \<times> request list" where
  "fetch srv u i net = (srv (length net) \<lparr>url = u, init = i\<rparr>, net @ [\<lparr>url = u, init = i\<rparr>])"

text \<open>\<^verbatim>\<open>{ method: 'GET', credentials: 'include' }\<close>\<close>

definition GET_include :: RequestInit where
  "GET_include = \<lparr>method = Some ''GET'', credentials = Some ''include'', headers = [], body = None\<rparr>"

text \<open>
  Object spread \<^verbatim>\<open>{...a, ...b}\<close>: the properties of \<open>a\<close>, then those of \<open>b\<close> in order, a
  property of \<open>b\<close> replacing the value of one of the same name.
\<close>

fun assign :: "string \<Rightarrow> jsval \<Rightarrow> (string \<times> jsval) list \<Rightarrow> (string \<times> jsval) list" where
  "assign k v [] = [(k, v)]"
| "assign k v ((k', v') # ps) = (if k = k' then (k, v) # ps else (k', v') # assign k v ps)"

definition spread :: "(string \<times> jsval) list \<Rightarrow> (string \<times> jsval) list \<Rightarrow> (string \<times> jsval) list" where
  "spread a b = fold (\<lambda>(k, v). assign k v) b a"

section \<open>lib/auth.ts: AuthService\<close>

record TokenData =
  access_token :: jsval
  id_token :: jsval

text \<open>
  The fields of the class. The type parameter \<open>'p\<close> is how a promise is represented.
  In this section one call is run from its start to its completion, with no other
  continuation of the same service in between; a promise of \<^verbatim>\<open>fetchAndStoreTokens\<close>
  never rejects, so a pending \<^verbatim>\<open>refreshPromise\<close> is represented by the value it
  resolves to (the type \<open>Service\<close>). A call of \<^verbatim>\<open>getTokens\<close> that finds one returns that
  value when the promise is fulfilled: by then \<^verbatim>\<open>fetchAndStoreTokens\<close> has stored it in
  \<^verbatim>\<open>tokenStore\<close>, and the call that created the promise, which waits for it longer, has
  set \<^verbatim>\<open>refreshPromise\<close> to \<^verbatim>\<open>null\<close>. Where several calls interleave (the section on
  interleaved calls), a promise is represented by its number. Writing to the console is
  left out throughout.
\<close>

record 'p AuthService =
  baseUrl :: string
  tokenStore :: "TokenData option"
  refreshPromise :: "'p option"

type_synonym Service = "TokenData option AuthService"

definition new_AuthService :: "'p AuthService" where
  "new_AuthService = \<lparr>baseUrl = ''/api'', tokenStore = None, refreshPromise = None\<rparr>"

text \<open>
  \<^verbatim>\<open>fetchAndStoreTokens\<close>, from the point where the promise of its \<^verbatim>\<open>fetch\<close> settles.
  Every throw inside the \<^verbatim>\<open>try\<close> lands in the \<^verbatim>\<open>catch\<close>: the rejected fetch, the failed
  \<^verbatim>\<open>response.json()\<close> and a property read on \<^verbatim>\<open>null\<close>.
\<close>

definition fetchAndStoreTokens_settle ::
  "fetch_result \<Rightarrow> 'p AuthService \<Rightarrow> TokenData option \<times> 'p AuthService" where
  "fetchAndStoreTokens_settle r svc =
     (case r of
        Rejected e \<Rightarrow> (None, svc\<lparr>tokenStore := None\<rparr>)
      | Resolved response \<Rightarrow>
          if ok response then
            (case json response of
               Inl e \<Rightarrow> (None, svc\<lparr>tokenStore := None\<rparr>)
             | Inr tokens \<Rightarrow>
                 (case getProp tokens ''access_token'' of
                    Inl e \<Rightarrow> (None, svc\<lparr>tokenStore := None\<rparr>)
                  | Inr a \<Rightarrow>
                      (case getProp tokens ''id_token'' of
                         Inl e \<Rightarrow> (None, svc\<lparr>tokenStore := None\<rparr>)
                       | Inr i \<Rightarrow>
                           (let svc' = svc\<lparr>tokenStore := Some \<lparr>access_token = a, id_token = i\<rparr>\<rparr>
                            in (tokenStore svc', svc')))))
          else (None, svc\<lparr>tokenStore := None\<rparr>))"

definition tokensRequest :: "'p AuthService \<Rightarrow> request" where
  "tokensRequest svc = \<lparr>url = baseUrl svc @ ''/auth/tokens'', init = GET_include\<rparr>"

definition fetchAndStoreTokens ::
  "server \<Rightarrow> Service \<times> request list \<Rightarrow> TokenData option \<times> Service \<times> request list" where
  "fetchAndStoreTokens srv = (\<lambda>(svc, net).
     let (r, net1) = fetch srv (baseUrl svc @ ''/auth/tokens'') GET_include net;
         (result, svc1) = fetchAndStoreTokens_settle r svc
     in (result, svc1, net1))"

definition getTokens ::
  "server \<Rightarrow> Service \<times> request list \<Rightarrow> TokenData option \<times> Service \<times> request list" where
  "getTokens srv = (\<lambda>(svc, net).
     case refreshPromise svc of
       Some pending \<Rightarrow> (pending, svc\<lparr>tokenStore := pending, refreshPromise := None\<rparr>, net)
     | None \<Rightarrow>
         (let (result, svc1, net1) = fetchAndStoreTokens srv (svc, net);
              svc2 = svc1\<lparr>refreshPromise := Some result\<rparr>
          in (result, svc2\<lparr>refreshPromise := None\<rparr>, net1)))"

text \<open>The returned object has the type \<^verbatim>\<open>AuthTokens\<close>: its property names are header names.\<close>

type_synonym AuthTokens = "(string \<times> jsval) list"

definition getAuthHeaders ::
  "server \<Rightarrow> Service \<times> request list \<Rightarrow> AuthTokens option \<times> Service \<times> request list" where
  "getAuthHeaders srv = (\<lambda>(svc, net).
     let (tokens, svc1, net1) = getTokens srv (svc, net)
     in case tokens of
          None \<Rightarrow> (None, svc1, net1)
        | Some t \<Rightarrow>
            (Some [(''azure-access-token'', access_token t), (''azure-id-token'', id_token t)],
             svc1, net1))"

definition authenticatedFetch ::
  "server \<Rightarrow> string \<Rightarrow> RequestInit \<Rightarrow> Service \<times> request list
    \<Rightarrow> (error + response) \<times> Service \<times> request list" where
  "authenticatedFetch srv u options = (\<lambda>(svc, net).
     let (authHeaders, svc1, net1) = getAuthHeaders srv (svc, net);
         fetchOptions = options\<lparr>credentials := Some ''include'',
           headers := spread (headers options) (case authHeaders of None \<Rightarrow> [] | Some h \<Rightarrow> h)\<rparr>;
         (r, net2) = fetch srv u fetchOptions net1
     in case r of
          Rejected e \<Rightarrow> (Inl e, svc1, net2)
        | Resolved response \<Rightarrow>
            if status response = 401 then
              (let svc2 = svc1\<lparr>tokenStore := None, refreshPromise := None\<rparr>;
                   (newAuthHeaders, svc3, net3) = getAuthHeaders srv (svc2, net2)
               in case newAuthHeaders of
                    None \<Rightarrow> (Inr response, svc3, net3)
                  | Some h \<Rightarrow>
                      (let retryOptions = options\<lparr>credentials := Some ''include'',
                             headers := spread (headers options) h\<rparr>;
                           (r', net4) = fetch srv u retryOptions net3
                       in case r' of
                            Rejected e \<Rightarrow> (Inl e, svc3, net4)
                          | Resolved response' \<Rightarrow> (Inr response', svc3, net4)))
            else (Inr response, svc1, net2))"

text \<open>\<^verbatim>\<open>getAuthUrl\<close>: the \<^verbatim>\<open>catch\<close> logs the error and throws it again.\<close>

definition getAuthUrl ::
  "server \<Rightarrow> Service \<times> request list \<Rightarrow> (error + jsval) \<times> Service \<times> request list" where
  "getAuthUrl srv = (\<lambda>(svc, net).
     let (r, net1) = fetch srv (baseUrl svc @ ''/auth/login'') GET_include net
     in case r of
          Rejected e \<Rightarrow> (Inl e, svc, net1)
        | Resolved response \<Rightarrow>
            if \<not> ok response
            then (Inl (Error (''Failed to get auth URL: '' @ showNat (status response))), svc, net1)
            else (case json response of
                    Inl e \<Rightarrow> (Inl e, svc, net1)
                  | Inr data \<Rightarrow>
                      (case getProp data ''auth_url'' of
                         Inl e \<Rightarrow> (Inl e, svc, net1)
                       | Inr v \<Rightarrow> (Inr v, svc, net1))))"

definition checkAuthStatus ::
  "server \<Rightarrow> Service \<times> request list \<Rightarrow> bool \<times> Service \<times> request list" where
  "checkAuthStatus srv = (\<lambda>(svc, net).
     let (tokens, svc1, net1) = getTokens srv (svc, net)
     in (tokens \<noteq> None, svc1, net1))"

text \<open>
  \<^verbatim>\<open>logout\<close>: the two assignments stand inside the \<^verbatim>\<open>try\<close>, after the \<^verbatim>\<open>await\<close>; the
  \<^verbatim>\<open>catch\<close> only logs. The result is \<open>Inr ()\<close> when the promise of \<^verbatim>\<open>logout\<close> resolves.
\<close>

definition logout ::
  "server \<Rightarrow> Service \<times> request list \<Rightarrow> (error + unit) \<times> Service \<times> request list" where
  "logout srv = (\<lambda>(svc, net).
     let (r, net1) = fetch srv (baseUrl svc @ ''/auth/logout'') GET_include net
     in case r of
          Rejected e \<Rightarrow> (Inr (), svc, net1)
        | Resolved response \<Rightarrow> (Inr (), svc\<lparr>tokenStore := None, refreshPromise := None\<rparr>, net1))"

section \<open>components/Chat.tsx\<close>

text \<open>
  A string is the list of the bytes of its UTF-8 encoding, an unpaired surrogate being
  encoded like any other code point, so that every JavaScript string is one such list.
  The strings joined here meet at an ASCII character of a literal, so joining the
  strings is joining the lists.

  \<^verbatim>\<open>String.prototype.trim\<close> removes the white space and the line terminators of
  ECMAScript from both ends. These are the code points U+0009 to U+000D, U+0020, U+00A0,
  U+1680, U+2000 to U+200A, U+2028, U+2029, U+202F, U+205F, U+3000 and U+FEFF;
  \<open>whiteSpaces\<close> lists their encodings.
\<close>

definition whiteSpaces :: "string list" where
  "whiteSpaces =
     [[CHR 0x09], [CHR 0x0A], [CHR 0x0B], [CHR 0x0C], [CHR 0x0D], [CHR 0x20],
      [CHR 0xC2, CHR 0xA0],
      [CHR 0xE1, CHR 0x9A, CHR 0x80],
      [CHR 0xE2, CHR 0x80, CHR 0x80], [CHR 0xE2, CHR 0x80, CHR 0x81],
      [CHR 0xE2, CHR 0x80, CHR 0x82], [CHR 0xE2, CHR 0x80, CHR 0x83],
      [CHR 0xE2, CHR 0x80, CHR 0x84], [CHR 0xE2, CHR 0x80, CHR 0x85],
      [CHR 0xE2, CHR 0x80, CHR 0x86], [CHR 0xE2, CHR 0x80, CHR 0x87],
      [CHR 0xE2, CHR 0x80, CHR 0x88], [CHR 0xE2, CHR 0x80, CHR 0x89],
      [CHR 0xE2, CHR 0x80, CHR 0x8A],
      [CHR 0xE2, CHR 0x80, CHR 0xA8], [CHR 0xE2, CHR 0x80, CHR 0xA9],
      [CHR 0xE2, CHR 0x80, CHR 0xAF],
      [CHR 0xE2, CHR 0x81, CHR 0x9F],
      [CHR 0xE3, CHR 0x80, CHR 0x80],
      [CHR 0xEF, CHR 0xBB, CHR 0xBF]]"

text \<open>The encoding of one white space code point.\<close>

definition isWhiteSpace :: "string \<Rightarrow> bool" where
  "isWhiteSpace w = (w \<in> set whiteSpaces)"

text \<open>
  \<open>strip ws s\<close> removes from the front of \<open>s\<close>, again and again, whichever of the byte
  sequences \<open>ws\<close> the string starts with. A sequence found at the front of \<open>c # cs\<close> is
  not empty, so dropping it is dropping one byte less from \<open>cs\<close>.
\<close>

fun strip :: "string list \<Rightarrow> string \<Rightarrow> string" where
  "strip ws [] = []"
| "strip ws (c # cs) =
     (case find (\<lambda>w. take (length w) (c # cs) = w) ws of
        None \<Rightarrow> c # cs
      | Some w \<Rightarrow> strip ws (drop (length w - 1) cs))"

text \<open>The front is stripped first, then the end, which is the front of the reversed string.\<close>

definition trim :: "string \<Rightarrow> string" where
  "trim s = rev (strip (map rev whiteSpaces) (rev (strip whiteSpaces s)))"

datatype sender = user | AAD_Agent

text \<open>
  \<^verbatim>\<open>interface Message\<close>. The field \<^verbatim>\<open>id\<close> is \<open>ident\<close> here. The content of a reply is
  whatever value the response body holds, so it is a \<open>jsval\<close>. \<^verbatim>\<open>Date.now()\<close> is the
  argument \<open>now\<close> of the functions below.
\<close>

record Message =
  ident :: string
  content :: jsval
  sender :: sender
  timestamp :: nat

text \<open>The state of the component: one field for each \<^verbatim>\<open>useState\<close>.\<close>

record Chat =
  isAuthenticated :: bool
  threadId :: "string option"
  messages :: "Message list"
  inputMessage :: string
  isLoading :: bool
  pendingMessage :: string
  shouldSendMessage :: bool

definition new_Chat :: Chat where
  "new_Chat = \<lparr>isAuthenticated = False, threadId = None, messages = [], inputMessage = [],
     isLoading = False, pendingMessage = [], shouldSendMessage = False\<rparr>"

definition Chat_checkAuthStatus ::
  "server \<Rightarrow> Chat \<times> Service \<times> request list \<Rightarrow> Chat \<times> Service \<times> request list" where
  "Chat_checkAuthStatus srv = (\<lambda>(c, svc, net).
     let (authenticated, svc1, net1) = checkAuthStatus srv (svc, net)
     in (c\<lparr>isAuthenticated := authenticated\<rparr>, svc1, net1))"

definition sendMessage :: "nat \<Rightarrow> Chat \<Rightarrow> Chat" where
  "sendMessage now c =
     (if trim (inputMessage c) = [] \<or> isLoading c then c
      else
        (let userMessage = \<lparr>ident = showNat now, content = JStr (inputMessage c),
               sender = user, timestamp = now\<rparr>
         in c\<lparr>messages := messages c @ [userMessage],
              pendingMessage := inputMessage c,
              inputMessage := [],
              shouldSendMessage := True\<rparr>))"

text \<open>
  \<^verbatim>\<open>data.messages.filter((msg) => msg.type === 'ai')\<close>: the callback reads a property of
  every element, so an element that is \<^verbatim>\<open>null\<close> makes the whole \<^verbatim>\<open>filter\<close> throw.
\<close>

fun filterAi :: "jsval list \<Rightarrow> error + jsval list" where
  "filterAi [] = Inr []"
| "filterAi (msg # rest) =
     (case getProp msg ''type'' of
        Inl e \<Rightarrow> Inl e
      | Inr t \<Rightarrow>
          (case filterAi rest of
             Inl e \<Rightarrow> Inl e
           | Inr ys \<Rightarrow> Inr (if t = JStr ''ai'' then msg # ys else ys)))"

text \<open>
  Lines 106 to 112 of \<^verbatim>\<open>deliverMessage\<close>: the value of \<^verbatim>\<open>agentContent\<close> after them.
  An array is a true value, so \<^verbatim>\<open>data.messages && Array.isArray(data.messages)\<close> holds
  exactly when \<^verbatim>\<open>data.messages\<close> is an array.
\<close>

definition agentContentOf :: "jsval \<Rightarrow> error + jsval" where
  "agentContentOf data =
     (case getProp data ''messages'' of
        Inl e \<Rightarrow> Inl e
      | Inr ms \<Rightarrow>
          (case ms of
             JArr elems \<Rightarrow>
               (case filterAi elems of
                  Inl e \<Rightarrow> Inl e
                | Inr aiMessages \<Rightarrow>
                    if length aiMessages > 0 then getProp (last aiMessages) ''content''
                    else Inr (JStr []))
           | _ \<Rightarrow> Inr (JStr [])))"

text \<open>
  \<^verbatim>\<open>'...' + error\<close>: the name of the error and its message. The text an engine gives its
  own \<^verbatim>\<open>TypeError\<close> and \<^verbatim>\<open>SyntaxError\<close> is left out.
\<close>

fun errorString :: "error \<Rightarrow> string" where
  "errorString (Error m) = ''Error: '' @ m"
| "errorString TypeError = ''TypeError''"
| "errorString SyntaxError = ''SyntaxError''"

definition runRequest :: "string \<Rightarrow> RequestInit" where
  "runRequest pending =
     \<lparr>method = Some ''POST'', credentials = None,
      headers = [(''Content-Type'', JStr ''application/json'')],
      body = Some (JObj [(''assistant_id'', JStr ''AAD Agent''),
                         (''input'', JObj [(''messages'', JArr [JStr pending])])])\<rparr>"

definition deliverMessage ::
  "server \<Rightarrow> nat \<Rightarrow> Chat \<times> Service \<times> request list \<Rightarrow> Chat \<times> Service \<times> request list" where
  "deliverMessage srv now = (\<lambda>(c, svc, net).
     case threadId c of
       None \<Rightarrow> (c, svc, net)
     | Some tid \<Rightarrow>
         if tid = [] \<or> pendingMessage c = [] then (c, svc, net)
         else
           (let c1 = c\<lparr>isLoading := True, shouldSendMessage := False\<rparr>;
                (r, svc1, net1) =
                  authenticatedFetch srv (''/api/threads/'' @ tid @ ''/runs/wait'')
                    (runRequest (pendingMessage c)) (svc, net);
                tried =
                  (case r of
                     Inl e \<Rightarrow> Inl e
                   | Inr response \<Rightarrow>
                       if \<not> ok response
                       then Inl (Error (''Failed to get agent response: '' @ showNat (status response)))
                       else (case json response of
                               Inl e \<Rightarrow> Inl e
                             | Inr data \<Rightarrow> agentContentOf data));
                reply =
                  (case tried of
                     Inr agentContent \<Rightarrow>
                       if truthy agentContent then agentContent
                       else JStr ''No response received''
                   | Inl e \<Rightarrow>
                       JStr (''Sorry, there was an error processing your message. Error: ''
                             @ errorString e));
                c2 = c1\<lparr>messages := messages c1 @
                       [\<lparr>ident = showNat (now + 1), content = reply,
                         sender = AAD_Agent, timestamp = now\<rparr>]\<rparr>
            in (c2\<lparr>isLoading := False, pendingMessage := []\<rparr>, svc1, net1)))"

text \<open>What the component returns: the sign-in entry point or the chat interface.\<close>

datatype view = SignIn | ChatInterface

definition render :: "Chat \<Rightarrow> view" where
  "render c = (if \<not> isAuthenticated c then SignIn else ChatInterface)"

section \<open>The callback page: AuthCallback\<close>

text \<open>
  The query string is the list of its name and value pairs, in order;
  \<^verbatim>\<open>searchParams.get(name)\<close> is the first value of that name, or \<^verbatim>\<open>null\<close>.
  \<^verbatim>\<open>encodeURIComponent\<close> is the argument \<open>enc\<close>.
\<close>

definition searchParams_get :: "(string \<times> string) list \<Rightarrow> string \<Rightarrow> string option" where
  "searchParams_get params name = map_of params name"

text \<open>The truth value of a \<^verbatim>\<open>string | null\<close>: \<^verbatim>\<open>null\<close> and the empty string are false.\<close>

fun given :: "string option \<Rightarrow> bool" where
  "given None = False"
| "given (Some s) = (s \<noteq> [])"

text \<open>A \<^verbatim>\<open>string | null\<close> where a string is needed: \<^verbatim>\<open>null\<close> reads \<^verbatim>\<open>'null'\<close>.\<close>

fun str :: "string option \<Rightarrow> string" where
  "str None = ''null''"
| "str (Some s) = s"

definition handleCallback ::
  "(string \<Rightarrow> string) \<Rightarrow> server \<Rightarrow> string \<Rightarrow> string option \<Rightarrow> request list
    \<Rightarrow> fetch_result \<times> request list" where
  "handleCallback enc srv code scopes net =
     (let u = ''/api/auth/callback?code='' @ enc code;
          u' = (if given scopes then u @ ''&scopes='' @ enc (str scopes) else u)
      in fetch srv u' GET_include net)"

text \<open>\<^verbatim>\<open>error.message\<close>; the text an engine gives its own errors is left out.\<close>

fun message :: "error \<Rightarrow> string" where
  "message (Error m) = m"
| "message e = []"

record AuthCallback =
  callbackStatus :: string
  replacedBy :: "string option"

definition new_AuthCallback :: AuthCallback where
  "new_AuthCallback = \<lparr>callbackStatus = ''Processing authentication...'', replacedBy = None\<rparr>"

text \<open>The effect run once after the first render, with the promise chain run to its end.\<close>

definition AuthCallback_effect ::
  "(string \<Rightarrow> string) \<Rightarrow> server \<Rightarrow> (string \<times> string) list
    \<Rightarrow> AuthCallback \<times> request list \<Rightarrow> AuthCallback \<times> request list" where
  "AuthCallback_effect enc srv params = (\<lambda>(page, net).
     let code = searchParams_get params ''code'';
         error = searchParams_get params ''error'';
         scopes = searchParams_get params ''scope''
     in if given error
        then (page\<lparr>callbackStatus := ''Authentication failed: '' @ str error\<rparr>, net)
        else if given code \<and> \<not> given error
        then
          (case handleCallback enc srv (str code) scopes net of
             (Resolved response, net1) \<Rightarrow>
               if ok response
               then (page\<lparr>callbackStatus := ''Authentication successful! Redirecting...'',
                          replacedBy := Some ''/''\<rparr>, net1)
               else (page\<lparr>callbackStatus := ''Authentication failed: '' @ showNat (status response)
                            @ '' - '' @ statusText response\<rparr>, net1)
           | (Rejected e, net1) \<Rightarrow>
               (page\<lparr>callbackStatus := ''Authentication error: '' @ message e\<rparr>, net1))
        else (page\<lparr>callbackStatus := ''Missing authentication parameters''\<rparr>, net))"

section \<open>Interleaved calls of getTokens\<close>

text \<open>
  An \<^verbatim>\<open>async\<close> function runs without interruption up to its next \<^verbatim>\<open>await\<close>; between
  two such stretches any other ready continuation may run. The state of the page is the
  service, the promises that calls of \<^verbatim>\<open>fetchAndStoreTokens\<close> have returned (a promise is
  known by its position in the list), the calls of \<^verbatim>\<open>getTokens\<close> that have not returned
  yet, the calls that have returned with their results, the number of calls made, and the
  requests sent.

  An entry \<open>(c, p, created)\<close> of \<open>waiting\<close> is the call number \<open>c\<close> waiting for promise
  \<open>p\<close>: with \<open>created\<close> it has created \<open>p\<close> at line 54 and waits at line 55, to go on with
  lines 56 and 57; without, it has returned \<open>p\<close> itself at line 50, and its caller gets the
  value of \<open>p\<close>.
\<close>

datatype promise = Pending | Fulfilled "TokenData option"

record world =
  service :: "nat AuthService"
  promises :: "promise list"
  waiting :: "(nat \<times> nat \<times> bool) list"
  returned :: "(nat \<times> TokenData option) list"
  calls :: nat
  sent :: "request list"

definition new_world :: world where
  "new_world = \<lparr>service = new_AuthService, promises = [], waiting = [], returned = [],
     calls = 0, sent = []\<rparr>"

text \<open>
  What can happen next:
  \<^item> \<open>Call\<close>: somebody calls \<^verbatim>\<open>getTokens()\<close>; the call runs up to line 50 or line 55, which
    includes the start of \<^verbatim>\<open>fetchAndStoreTokens\<close> up to its \<^verbatim>\<open>await fetch(...)\<close>;
  \<^item> \<open>Settle p r\<close>: the request behind promise \<open>p\<close> has the outcome \<open>r\<close>; the rest of
    \<^verbatim>\<open>fetchAndStoreTokens\<close> runs and fulfils \<open>p\<close> (its second \<^verbatim>\<open>await\<close>, of
    \<^verbatim>\<open>response.json()\<close>, is taken together with the first: the function reads and
    writes nothing of the service between the two);
  \<^item> \<open>Resume c\<close>: call \<open>c\<close>, whose promise is fulfilled, goes on to its end;
  \<^item> \<open>Invalidate\<close>: lines 90 and 91 of \<^verbatim>\<open>authenticatedFetch\<close> (and 140, 141 of
    \<^verbatim>\<open>logout\<close>), which are not part of \<^verbatim>\<open>getTokens\<close>.
  An event that cannot happen in a state leaves it as it is.
\<close>

datatype event = Call | Settle nat fetch_result | Resume nat | Invalidate

fun step :: "event \<Rightarrow> world \<Rightarrow> world" where
  "step Call w =
     (case refreshPromise (service w) of
        Some p \<Rightarrow> w\<lparr>waiting := waiting w @ [(calls w, p, False)], calls := Suc (calls w)\<rparr>
      | None \<Rightarrow>
          w\<lparr>sent := sent w @ [tokensRequest (service w)],
            promises := promises w @ [Pending],
            service := (service w)\<lparr>refreshPromise := Some (length (promises w))\<rparr>,
            waiting := waiting w @ [(calls w, length (promises w), True)],
            calls := Suc (calls w)\<rparr>)"
| "step (Settle p r) w =
     (if p < length (promises w) \<and> promises w ! p = Pending
      then (let (result, svc1) = fetchAndStoreTokens_settle r (service w)
            in w\<lparr>service := svc1, promises := (promises w)[p := Fulfilled result]\<rparr>)
      else w)"
| "step (Resume c) w =
     (case find (\<lambda>(c', p, created). c' = c) (waiting w) of
        None \<Rightarrow> w
      | Some (c', p, created) \<Rightarrow>
          if p < length (promises w) then
            (case promises w ! p of
               Pending \<Rightarrow> w
             | Fulfilled result \<Rightarrow>
                 (let w1 = w\<lparr>waiting := filter (\<lambda>(c', p, created). c' \<noteq> c) (waiting w),
                              returned := returned w @ [(c, result)]\<rparr>
                  in if created
                     then w1\<lparr>service := (service w1)\<lparr>refreshPromise := None\<rparr>\<rparr>
                     else w1))
          else w)"
| "step Invalidate w = w\<lparr>service := (service w)\<lparr>tokenStore := None, refreshPromise := None\<rparr>\<rparr>"

definition run :: "event list \<Rightarrow> world \<Rightarrow> world" where
  "run evs w = fold step evs w"

section \<open>Notions used in the statements\<close>

text \<open>The tokens that a settled request for \<^verbatim>\<open>/auth/tokens\<close> yields, \<open>None\<close> for \<^verbatim>\<open>null\<close>.\<close>

definition tokensIn :: "fetch_result \<Rightarrow> TokenData option" where
  "tokensIn r =
     (case r of
        Rejected e \<Rightarrow> None
      | Resolved response \<Rightarrow>
          if ok response then
            (case payload response of
               None \<Rightarrow> None
             | Some tokens \<Rightarrow>
                 if nullish tokens then None
                 else Some \<lparr>access_token = propOf tokens ''access_token'',
                            id_token = propOf tokens ''id_token''\<rparr>)
          else None)"

text \<open>
  The reply the chat is said to append for a response body: the content of the last
  element of type \<^verbatim>\<open>'ai'\<close> of the \<^verbatim>\<open>messages\<close> array, and \<^verbatim>\<open>'No response received'\<close> when
  there is no such array, no such element, or that content is empty. Empty is what
  \<^verbatim>\<open>if (agentContent)\<close> takes for false: the empty string, a missing content or \<^verbatim>\<open>null\<close>,
  and also \<^verbatim>\<open>false\<close> and \<^verbatim>\<open>0\<close>.
\<close>

definition expectedReply :: "jsval \<Rightarrow> jsval" where
  "expectedReply data =
     (case propOf data ''messages'' of
        JArr elems \<Rightarrow>
          (case filter (\<lambda>msg. propOf msg ''type'' = JStr ''ai'') elems of
             [] \<Rightarrow> JStr ''No response received''
           | m # ms \<Rightarrow>
               if truthy (propOf (last (m # ms)) ''content'')
               then propOf (last (m # ms)) ''content''
               else JStr ''No response received'')
      | _ \<Rightarrow> JStr ''No response received'')"

text \<open>
  A state in which a call of \<^verbatim>\<open>getTokens\<close> starts a request: no refresh is registered, and
  no call that created a promise is still waiting. Call numbers in use are below \<open>calls\<close>.
\<close>

definition quiet :: "world \<Rightarrow> bool" where
  "quiet w = (refreshPromise (service w) = None \<and>
     list_all (\<lambda>(c, p, created). \<not> created \<and> c < calls w) (waiting w) \<and>
     list_all (\<lambda>(c, v). c < calls w) (returned w))"

text \<open>
  The invariants of the calls that share one request. \<open>w0\<close> is the quiet state in which the
  first of them is made: it gets the number \<open>calls w0\<close>, its promise the number
  \<open>length (promises w0)\<close>. \<open>sharing\<close> holds until the first call has resumed, \<open>settling\<close>
  also afterwards, as long as no new call is made.
\<close>

definition settling :: "world \<Rightarrow> world \<Rightarrow> bool" where
  "settling w0 w =
     (sent w = sent w0 @ [tokensRequest (service w0)] \<and>
      length (promises w) = Suc (length (promises w0)) \<and>
      calls w0 < calls w \<and>
      (\<forall>c p created. (c, p, created) \<in> set (waiting w) \<longrightarrow>
         c < calls w \<and> (calls w0 \<le> c \<longrightarrow> p = length (promises w0))) \<and>
      (\<forall>c v. (c, v) \<in> set (returned w) \<longrightarrow>
         c < calls w \<and> (calls w0 \<le> c \<longrightarrow> promises w ! length (promises w0) = Fulfilled v)) \<and>
      (\<forall>c. calls w0 \<le> c \<and> c < calls w \<longrightarrow>
         c \<in> fst ` set (waiting w) \<or> c \<in> fst ` set (returned w)))"

definition sharing :: "world \<Rightarrow> world \<Rightarrow> bool" where
  "sharing w0 w =
     (settling w0 w \<and> refreshPromise (service w) = Some (length (promises w0)) \<and>
      (\<forall>c p. (c, p, True) \<in> set (waiting w) \<longrightarrow> c = calls w0))"

text \<open>
  The quiet states are the ones that calls of \<^verbatim>\<open>getTokens\<close> alone lead to whenever no
  refresh is registered: among the waiting calls at most one has created its promise, and
  there is one only while a refresh is registered.
\<close>

definition orderly :: "world \<Rightarrow> bool" where
  "orderly w =
     ((\<forall>c p created. (c, p, created) \<in> set (waiting w) \<longrightarrow> c < calls w) \<and>
      (\<forall>c v. (c, v) \<in> set (returned w) \<longrightarrow> c < calls w) \<and>
      (refreshPromise (service w) = None \<longrightarrow> (\<forall>c p. (c, p, True) \<notin> set (waiting w))) \<and>
      (\<forall>c p c' p'. (c, p, True) \<in> set (waiting w) \<and> (c', p', True) \<in> set (waiting w) \<longrightarrow> c = c'))"

section \<open>Concrete inputs\<close>

text \<open>A token response that also carries a refresh token, a 401, and a run result.\<close>

definition tokenResponse :: response where
  "tokenResponse = \<lparr>status = 200, statusText = ''OK'',
     payload = Some (JObj [(''access_token'', JStr ''AT''), (''id_token'', JStr ''IT''),
                           (''refresh_token'', JStr ''RT'')])\<rparr>"

definition unauthorized :: response where
  "unauthorized = \<lparr>status = 401, statusText = ''Unauthorized'', payload = None\<rparr>"

definition loginResponse :: response where
  "loginResponse = \<lparr>status = 200, statusText = ''OK'',
     payload = Some (JObj [(''auth_url'', JStr ''https://login.example/authorize'')])\<rparr>"

definition runResponse :: response where
  "runResponse = \<lparr>status = 200, statusText = ''OK'',
     payload = Some (JObj [(''messages'',
       JArr [JObj [(''type'', JStr ''human''), (''content'', JStr ''hello'')],
             JObj [(''type'', JStr ''ai''), (''content'', JStr ''first'')],
             JObj [(''type'', JStr ''tool''), (''content'', JStr ''x'')],
             JObj [(''type'', JStr ''ai''), (''content'', JStr ''second'')]])])\<rparr>"

text \<open>
  A backend that is up: it hands out tokens and the login URL and answers every other
  request with the run result. The second one answers the request sent second (number
  1) with a 401 first. The third cannot be reached at all.
\<close>

definition backend :: server where
  "backend n q =
     (if url q = ''/api/auth/tokens'' then Resolved tokenResponse
      else if url q = ''/api/auth/login'' then Resolved loginResponse
      else Resolved runResponse)"


definition unreachable :: server where
  "unreachable n q = Rejected TypeError"

section \<open>Properties of AuthService, one call at a time\<close>

lemma settle_tokensIn:
  "fetchAndStoreTokens_settle r svc = (tokensIn r, svc\<lparr>tokenStore := tokensIn r\<rparr>)"
  by (simp add: fetchAndStoreTokens_settle_def tokensIn_def json_def getProp_def Let_def
      split: fetch_result.splits option.splits)

lemma getTokens_idle:
  "refreshPromise svc = None \<Longrightarrow>
   getTokens srv (svc, net) =
     (tokensIn (srv (length net) (tokensRequest svc)),
      svc\<lparr>tokenStore := tokensIn (srv (length net) (tokensRequest svc))\<rparr>,
      net @ [tokensRequest svc])"
  by (simp add: getTokens_def fetchAndStoreTokens_def fetch_def settle_tokensIn tokensRequest_def Let_def)


lemma getAuthHeaders_idle:
  "refreshPromise svc = None \<Longrightarrow>
   getAuthHeaders srv (svc, net) =
     (map_option (\<lambda>t. [(''azure-access-token'', access_token t), (''azure-id-token'', id_token t)])
        (tokensIn (srv (length net) (tokensRequest svc))),
      svc\<lparr>tokenStore := tokensIn (srv (length net) (tokensRequest svc))\<rparr>,
      net @ [tokensRequest svc])"
  by (simp add: getAuthHeaders_def getTokens_idle split: option.splits)



text \<open>The concrete backends at the token endpoint.\<close>

lemma tokensRequest_new: "tokensRequest new_AuthService = \<lparr>url = ''/api/auth/tokens'', init = GET_include\<rparr>"
  by (simp add: tokensRequest_def new_AuthService_def)

lemma tokensIn_tokenResponse:
  "tokensIn (Resolved tokenResponse) = Some \<lparr>access_token = JStr ''AT'', id_token = JStr ''IT''\<rparr>"
  by (simp add: tokensIn_def tokenResponse_def ok_def nullish_def)

lemma backend_tokens: "backend n \<lparr>url = ''/api/auth/tokens'', init = i\<rparr> = Resolved tokenResponse"
  by (simp add: backend_def)


text \<open>
  C3. When the request to \<^verbatim>\<open>/auth/tokens\<close> that \<^verbatim>\<open>getTokens()\<close> sends is answered with a
  2xx status and, as the endpoint does, with a JSON body (the theorem takes any JSON
  value but \<^verbatim>\<open>null\<close>, with or without the two properties), the call returns a record of
  exactly the two fields \<^verbatim>\<open>access_token\<close> and \<^verbatim>\<open>id_token\<close>, each the property of that name
  of the body, and the token store holds the same record. The type \<open>TokenData\<close> has no
  other field, so nothing else of the body, such as a refresh token, is stored or
  returned.
\<close>

theorem getTokens_success:
  assumes "refreshPromise svc = None"
    and "srv (length net) (tokensRequest svc) = Resolved r"
    and "ok r" and "payload r = Some tokens" and "\<not> nullish tokens"
  shows "getTokens srv (svc, net) =
           (Some \<lparr>access_token = propOf tokens ''access_token'', id_token = propOf tokens ''id_token''\<rparr>,
            svc\<lparr>tokenStore := Some \<lparr>access_token = propOf tokens ''access_token'',
                                     id_token = propOf tokens ''id_token''\<rparr>\<rparr>,
            net @ [tokensRequest svc])"
  using assms by (simp add: getTokens_idle tokensIn_def)

theorem getTokens_success_witness:
  "refreshPromise (new_AuthService :: Service) = None \<and>
   backend (length []) (tokensRequest (new_AuthService :: Service)) = Resolved tokenResponse \<and>
   ok tokenResponse \<and>
   payload tokenResponse =
     Some (JObj [(''access_token'', JStr ''AT''), (''id_token'', JStr ''IT''),
                 (''refresh_token'', JStr ''RT'')]) \<and>
   \<not> nullish (JObj [(''access_token'', JStr ''AT''), (''id_token'', JStr ''IT''),
                    (''refresh_token'', JStr ''RT'')]) \<and>
   getTokens backend (new_AuthService, []) =
     (Some \<lparr>access_token = JStr ''AT'', id_token = JStr ''IT''\<rparr>,
      \<lparr>baseUrl = ''/api'', tokenStore = Some \<lparr>access_token = JStr ''AT'', id_token = JStr ''IT''\<rparr>,
       refreshPromise = None\<rparr>,
      [\<lparr>url = ''/api/auth/tokens'', init = GET_include\<rparr>])"
proof -
  have h: "refreshPromise (new_AuthService :: Service) = None"
    "backend (length []) (tokensRequest (new_AuthService :: Service)) = Resolved tokenResponse"
    "ok tokenResponse"
    "payload tokenResponse =
       Some (JObj [(''access_token'', JStr ''AT''), (''id_token'', JStr ''IT''),
                   (''refresh_token'', JStr ''RT'')])"
    "\<not> nullish (JObj [(''access_token'', JStr ''AT''), (''id_token'', JStr ''IT''),
                      (''refresh_token'', JStr ''RT'')])"
    by (simp_all add: new_AuthService_def tokensRequest_def backend_def tokenResponse_def
        ok_def nullish_def)
  from getTokens_success[where svc = "new_AuthService :: Service" and srv = backend and net = "[]"
        and r = tokenResponse, OF h] h
  show ?thesis
    by (simp add: new_AuthService_def tokensRequest_def)
qed

text \<open>
  The endpoint answers a valid session with a JSON object. Should a 2xx response carry a
  body that is not JSON, or \<^verbatim>\<open>null\<close>, the \<^verbatim>\<open>catch\<close> handles it: \<^verbatim>\<open>getTokens()\<close> returns
  \<^verbatim>\<open>null\<close> then, as for a failed request.
\<close>

lemma getTokens_no_body:
  assumes "refreshPromise svc = None"
    and "srv (length net) (tokensRequest svc) = Resolved r" and "ok r"
    and "payload r = None \<or> (\<exists>d. payload r = Some d \<and> nullish d)"
  shows "getTokens srv (svc, net) = (None, svc\<lparr>tokenStore := None\<rparr>, net @ [tokensRequest svc])"
proof -
  have "tokensIn (srv (length net) (tokensRequest svc)) = None"
    using assms(2-4) by (auto simp: tokensIn_def)
  with assms(1) show ?thesis by (simp add: getTokens_idle)
qed

text \<open>
  C4. When the request to \<^verbatim>\<open>/auth/tokens\<close> fails (no response at all) or is answered with
  a status outside 200 to 299, \<^verbatim>\<open>getTokens()\<close> returns \<^verbatim>\<open>null\<close> and the token store is
  \<^verbatim>\<open>null\<close> afterwards, \<^verbatim>\<open>checkAuthStatus()\<close> returns \<^verbatim>\<open>false\<close>, and the Chat component,
  having checked the status, renders the sign-in entry point.
\<close>

theorem getTokens_failure:
  assumes "refreshPromise svc = None"
    and "srv (length net) (tokensRequest svc) = Rejected e \<or>
         (\<exists>r. srv (length net) (tokensRequest svc) = Resolved r \<and> \<not> ok r)"
  shows "getTokens srv (svc, net) = (None, svc\<lparr>tokenStore := None\<rparr>, net @ [tokensRequest svc]) \<and>
         checkAuthStatus srv (svc, net) = (False, svc\<lparr>tokenStore := None\<rparr>, net @ [tokensRequest svc]) \<and>
         render (fst (Chat_checkAuthStatus srv (c, svc, net))) = SignIn"
proof -
  have "tokensIn (srv (length net) (tokensRequest svc)) = None"
    using assms(2) by (auto simp: tokensIn_def)
  with assms(1)
  have "getTokens srv (svc, net) = (None, svc\<lparr>tokenStore := None\<rparr>, net @ [tokensRequest svc])"
    by (simp add: getTokens_idle)
  then show ?thesis
    by (simp add: checkAuthStatus_def Chat_checkAuthStatus_def render_def)
qed

theorem getTokens_failure_witness:
  "refreshPromise (new_AuthService :: Service) = None \<and>
   unreachable (length []) (tokensRequest (new_AuthService :: Service)) = Rejected TypeError \<and>
   getTokens unreachable (new_AuthService, []) =
     (None, new_AuthService, [\<lparr>url = ''/api/auth/tokens'', init = GET_include\<rparr>]) \<and>
   checkAuthStatus unreachable (new_AuthService, []) =
     (False, new_AuthService, [\<lparr>url = ''/api/auth/tokens'', init = GET_include\<rparr>]) \<and>
   render (fst (Chat_checkAuthStatus unreachable (new_Chat, new_AuthService, []))) = SignIn"
proof -
  have h1: "refreshPromise (new_AuthService :: Service) = None"
    by (simp add: new_AuthService_def)
  have h2: "unreachable (length []) (tokensRequest (new_AuthService :: Service)) = Rejected TypeError"
    by (simp add: unreachable_def)
  from getTokens_failure[where svc = "new_AuthService :: Service" and srv = unreachable
        and net = "[]" and e = TypeError and c = new_Chat] h1 h2
  show ?thesis
    by (simp add: new_AuthService_def tokensRequest_def)
qed

text \<open>
  C10. \<^verbatim>\<open>getAuthHeaders()\<close> returns \<^verbatim>\<open>null\<close> exactly when its call of \<^verbatim>\<open>getTokens()\<close> does;
  otherwise it returns an object with the two properties \<^verbatim>\<open>'azure-access-token'\<close> and
  \<^verbatim>\<open>'azure-id-token'\<close>, and no other, whose values are the \<^verbatim>\<open>access_token\<close> and the
  \<^verbatim>\<open>id_token\<close> of the tokens.
\<close>

theorem getAuthHeaders_null_iff:
  "(fst (getAuthHeaders srv (svc, net)) = None \<longleftrightarrow> fst (getTokens srv (svc, net)) = None) \<and>
   (\<forall>t. fst (getTokens srv (svc, net)) = Some t \<longrightarrow>
        fst (getAuthHeaders srv (svc, net)) =
          Some [(''azure-access-token'', access_token t), (''azure-id-token'', id_token t)])"
proof -
  obtain tokens svc1 net1 where g: "getTokens srv (svc, net) = (tokens, svc1, net1)"
    by (cases "getTokens srv (svc, net)") auto
  show ?thesis
  proof (cases tokens)
    case None
    with g have "getAuthHeaders srv (svc, net) = (None, svc1, net1)"
      by (simp add: getAuthHeaders_def)
    with g None show ?thesis by simp
  next
    case (Some t)
    with g have "getAuthHeaders srv (svc, net) =
        (Some [(''azure-access-token'', access_token t), (''azure-id-token'', id_token t)], svc1, net1)"
      by (simp add: getAuthHeaders_def)
    with g Some show ?thesis by simp
  qed
qed

theorem getAuthHeaders_null_iff_witness:
  "fst (getTokens backend (new_AuthService, [])) =
     Some \<lparr>access_token = JStr ''AT'', id_token = JStr ''IT''\<rparr> \<and>
   fst (getAuthHeaders backend (new_AuthService, [])) =
     Some [(''azure-access-token'', JStr ''AT''), (''azure-id-token'', JStr ''IT'')] \<and>
   fst (getTokens unreachable (new_AuthService, [])) = None \<and>
   fst (getAuthHeaders unreachable (new_AuthService, [])) = None"
proof -
  have a: "fst (getTokens backend (new_AuthService, [])) =
     Some \<lparr>access_token = JStr ''AT'', id_token = JStr ''IT''\<rparr>"
    by (simp add: getTokens_idle new_AuthService_def tokensRequest_def backend_tokens
        tokensIn_tokenResponse)
  have b: "fst (getTokens unreachable (new_AuthService, [])) = None"
    by (simp add: getTokens_idle new_AuthService_def unreachable_def tokensIn_def)
  from getAuthHeaders_null_iff[of backend new_AuthService "[]"]
       getAuthHeaders_null_iff[of unreachable new_AuthService "[]"] a b
  show ?thesis by simp
qed


lemma spread_headers:
  "spread [(''Content-Type'', v)] [(''azure-access-token'', a), (''azure-id-token'', i)] =
     [(''Content-Type'', v), (''azure-access-token'', a), (''azure-id-token'', i)]"
  by (simp add: spread_def)


lemma getAuthUrl_ok:
  assumes "srv (length net) \<lparr>url = baseUrl svc @ ''/auth/login'', init = GET_include\<rparr> = Resolved r"
    and "ok r" and "payload r = Some d" and "\<not> nullish d"
  shows "getAuthUrl srv (svc, net) =
      (Inr (propOf d ''auth_url''), svc, net @ [\<lparr>url = baseUrl svc @ ''/auth/login'', init = GET_include\<rparr>])"
  using assms by (simp add: getAuthUrl_def fetch_def json_def getProp_def)

lemma getAuthUrl_not_ok:
  assumes "srv (length net) \<lparr>url = baseUrl svc @ ''/auth/login'', init = GET_include\<rparr> = Resolved r"
    and "\<not> ok r"
  shows "fst (getAuthUrl srv (svc, net)) = Inl (Error (''Failed to get auth URL: '' @ showNat (status r)))"
  using assms by (simp add: getAuthUrl_def fetch_def)

lemma getAuthUrl_rejected:
  assumes "srv (length net) \<lparr>url = baseUrl svc @ ''/auth/login'', init = GET_include\<rparr> = Rejected e"
  shows "fst (getAuthUrl srv (svc, net)) = Inl e"
  using assms by (simp add: getAuthUrl_def fetch_def)

text \<open>
  The endpoint answers with a JSON object. Should a 2xx response to \<^verbatim>\<open>/auth/login\<close> carry
  a body that is not JSON, or \<^verbatim>\<open>null\<close>, there is no \<^verbatim>\<open>auth_url\<close> to return:
  \<^verbatim>\<open>getAuthUrl()\<close> throws then as well.
\<close>

lemma getAuthUrl_no_body:
  assumes "srv (length net) \<lparr>url = baseUrl svc @ ''/auth/login'', init = GET_include\<rparr> = Resolved r"
    and "ok r" and "payload r = None \<or> (\<exists>d. payload r = Some d \<and> nullish d)"
  shows "\<exists>e. fst (getAuthUrl srv (svc, net)) = Inl e"
  using assms by (auto simp: getAuthUrl_def fetch_def json_def getProp_def)

text \<open>
  C7. \<^verbatim>\<open>getAuthUrl()\<close> returns the \<^verbatim>\<open>auth_url\<close> property of the JSON body when
  \<^verbatim>\<open>GET /auth/login\<close> is answered with a 2xx status (the body being any JSON value but
  \<^verbatim>\<open>null\<close>), throws \<^verbatim>\<open>Error('Failed to get auth URL: <status>')\<close> when the status is not 2xx,
  and throws the error of the request when the request fails.
\<close>

theorem getAuthUrl_result:
  "(\<forall>r d. srv (length net) \<lparr>url = baseUrl svc @ ''/auth/login'', init = GET_include\<rparr> = Resolved r
          \<and> ok r \<and> payload r = Some d \<and> \<not> nullish d
      \<longrightarrow> getAuthUrl srv (svc, net) =
            (Inr (propOf d ''auth_url''), svc,
             net @ [\<lparr>url = baseUrl svc @ ''/auth/login'', init = GET_include\<rparr>])) \<and>
   (\<forall>r. srv (length net) \<lparr>url = baseUrl svc @ ''/auth/login'', init = GET_include\<rparr> = Resolved r
          \<and> \<not> ok r
      \<longrightarrow> fst (getAuthUrl srv (svc, net)) =
            Inl (Error (''Failed to get auth URL: '' @ showNat (status r)))) \<and>
   (\<forall>e. srv (length net) \<lparr>url = baseUrl svc @ ''/auth/login'', init = GET_include\<rparr> = Rejected e
      \<longrightarrow> fst (getAuthUrl srv (svc, net)) = Inl e)"
  using getAuthUrl_ok getAuthUrl_not_ok getAuthUrl_rejected by blast

theorem getAuthUrl_result_witness:
  "backend (length []) \<lparr>url = baseUrl (new_AuthService :: Service) @ ''/auth/login'', init = GET_include\<rparr>
     = Resolved loginResponse \<and>
   ok loginResponse \<and>
   payload loginResponse = Some (JObj [(''auth_url'', JStr ''https://login.example/authorize'')]) \<and>
   \<not> nullish (JObj [(''auth_url'', JStr ''https://login.example/authorize'')]) \<and>
   getAuthUrl backend (new_AuthService, []) =
     (Inr (JStr ''https://login.example/authorize''), new_AuthService,
      [\<lparr>url = ''/api/auth/login'', init = GET_include\<rparr>]) \<and>
   unreachable (length []) \<lparr>url = baseUrl (new_AuthService :: Service) @ ''/auth/login'', init = GET_include\<rparr>
     = Rejected TypeError \<and>
   fst (getAuthUrl unreachable (new_AuthService, [])) = Inl TypeError"
proof -
  have h: "backend (length []) \<lparr>url = baseUrl (new_AuthService :: Service) @ ''/auth/login'', init = GET_include\<rparr>
     = Resolved loginResponse"
    "ok loginResponse"
    "payload loginResponse = Some (JObj [(''auth_url'', JStr ''https://login.example/authorize'')])"
    "\<not> nullish (JObj [(''auth_url'', JStr ''https://login.example/authorize'')])"
    "unreachable (length []) \<lparr>url = baseUrl (new_AuthService :: Service) @ ''/auth/login'', init = GET_include\<rparr>
     = Rejected TypeError"
    by (simp_all add: backend_def new_AuthService_def loginResponse_def ok_def nullish_def
        unreachable_def)
  from getAuthUrl_result[where srv = backend and svc = "new_AuthService :: Service" and net = "[]"]
       getAuthUrl_result[where srv = unreachable and svc = "new_AuthService :: Service" and net = "[]"]
       h
  show ?thesis
    by (simp add: new_AuthService_def)
qed

lemma logout_never_throws: "fst (logout srv (svc, net)) = Inr ()"
  by (simp add: logout_def fetch_def split: fetch_result.splits)

lemma logout_answered:
  "srv (length net) \<lparr>url = baseUrl svc @ ''/auth/logout'', init = GET_include\<rparr> = Resolved r \<Longrightarrow>
   logout srv (svc, net) = (Inr (), svc\<lparr>tokenStore := None, refreshPromise := None\<rparr>,
     net @ [\<lparr>url = baseUrl svc @ ''/auth/logout'', init = GET_include\<rparr>])"
  by (simp add: logout_def fetch_def)

lemma logout_unanswered:
  "srv (length net) \<lparr>url = baseUrl svc @ ''/auth/logout'', init = GET_include\<rparr> = Rejected e \<Longrightarrow>
   logout srv (svc, net) = (Inr (), svc,
     net @ [\<lparr>url = baseUrl svc @ ''/auth/logout'', init = GET_include\<rparr>])"
  by (simp add: logout_def fetch_def)

text \<open>
  C6. After \<^verbatim>\<open>logout()\<close> the token store and the registered refresh are to be \<^verbatim>\<open>null\<close>
  whether or not the request to \<^verbatim>\<open>/auth/logout\<close> succeeded. \<^verbatim>\<open>logout()\<close> never throws
  (\<open>logout_never_throws\<close>), and it clears both fields whenever the request gets a response,
  of whatever status (\<open>logout_answered\<close>). But when the request itself fails, the two
  assignments are skipped: with tokens in the store and a refresh registered, and a
  backend that cannot be reached, both are still there after \<^verbatim>\<open>logout()\<close>.
\<close>

theorem logout_unreachable_keeps_tokens:
  "logout unreachable
     (\<lparr>baseUrl = ''/api'',
       tokenStore = Some \<lparr>access_token = JStr ''AT'', id_token = JStr ''IT''\<rparr>,
       refreshPromise = Some (Some \<lparr>access_token = JStr ''AT'', id_token = JStr ''IT''\<rparr>)\<rparr>, [])
   = (Inr (),
      \<lparr>baseUrl = ''/api'',
       tokenStore = Some \<lparr>access_token = JStr ''AT'', id_token = JStr ''IT''\<rparr>,
       refreshPromise = Some (Some \<lparr>access_token = JStr ''AT'', id_token = JStr ''IT''\<rparr>)\<rparr>,
      [\<lparr>url = ''/api/auth/logout'', init = GET_include\<rparr>])"
  by (simp add: logout_def fetch_def unreachable_def)

section \<open>Properties of the Chat component\<close>

lemma first_whiteSpace:
  assumes "isWhiteSpace w"
  shows "find (\<lambda>w'. take (length w') (w @ r) = w') whiteSpaces = Some w"
  using assms unfolding isWhiteSpace_def
  by (simp only: whiteSpaces_def list.set insert_iff empty_iff, elim disjE FalseE) simp_all

lemma whiteSpace_length: "isWhiteSpace w \<Longrightarrow> 0 < length w"
  unfolding isWhiteSpace_def whiteSpaces_def by auto

lemma strip_whiteSpace:
  assumes "isWhiteSpace w"
  shows "strip whiteSpaces (w @ r) = strip whiteSpaces r"
proof -
  from assms have "0 < length w" by (rule whiteSpace_length)
  then obtain c cs where w: "w = c # cs" by (cases w) auto
  have "find (\<lambda>w'. take (length w') (c # (cs @ r)) = w') whiteSpaces = Some w"
    using first_whiteSpace[OF assms, of r] by (simp add: w)
  then have "strip whiteSpaces (c # (cs @ r)) = strip whiteSpaces (drop (length w - 1) (cs @ r))"
    by simp
  then show ?thesis by (simp add: w)
qed

text \<open>A string made of white space only is trimmed to the empty string.\<close>

lemma strip_blank:
  "\<forall>w \<in> set ws. isWhiteSpace w \<Longrightarrow> strip whiteSpaces (concat ws) = []"
  by (induction ws) (simp_all add: strip_whiteSpace)

lemma trim_blank:
  "\<forall>w \<in> set ws. isWhiteSpace w \<Longrightarrow> trim (concat ws) = []"
  by (simp add: trim_def strip_blank)

text \<open>White space is removed from both ends only, and other text is kept.\<close>

lemma trim_example:
  "trim ([CHR 0x20, CHR 0xE3, CHR 0x80, CHR 0x80] @ ''hi there'' @ [CHR 0xC2, CHR 0xA0, CHR 0x09])
     = ''hi there''"
  by (simp add: trim_def whiteSpaces_def)

text \<open>Otherwise the message is queued: the guard of \<^verbatim>\<open>sendMessage\<close> lets it through.\<close>

lemma sendMessage_otherwise:
  assumes "trim (inputMessage c) \<noteq> []" and "\<not> isLoading c"
  shows "sendMessage now c = c\<lparr>messages := messages c @
        [\<lparr>ident = showNat now, content = JStr (inputMessage c), sender = user, timestamp = now\<rparr>],
      pendingMessage := inputMessage c, inputMessage := [], shouldSendMessage := True\<rparr>"
  using assms by (simp add: sendMessage_def)

text \<open>
  C9. When the input is empty or consists of white space only, that is, when it is a
  sequence of white space code points of any length, and also when a message is
  still being processed (\<^verbatim>\<open>isLoading\<close>), \<^verbatim>\<open>sendMessage()\<close> returns with the state of the
  component as it was: the messages, the pending message, the input and the send flag,
  and every other field.
\<close>

theorem sendMessage_blank_or_loading:
  assumes "(\<exists>ws. (\<forall>w \<in> set ws. isWhiteSpace w) \<and> inputMessage c = concat ws) \<or> isLoading c"
  shows "sendMessage now c = c"
proof -
  from assms have "trim (inputMessage c) = [] \<or> isLoading c"
  proof
    assume "\<exists>ws. (\<forall>w \<in> set ws. isWhiteSpace w) \<and> inputMessage c = concat ws"
    then obtain ws where "\<forall>w \<in> set ws. isWhiteSpace w" and "inputMessage c = concat ws"
      by blast
    then have "trim (inputMessage c) = []" by (simp only: trim_blank)
    then show ?thesis ..
  next
    assume "isLoading c"
    then show ?thesis ..
  qed
  then show ?thesis
    by (simp add: sendMessage_def)
qed

theorem sendMessage_blank_or_loading_witness:
  "isWhiteSpace [CHR 0x20] \<and> isWhiteSpace [CHR 0xE3, CHR 0x80, CHR 0x80] \<and> isWhiteSpace [CHR 0x09] \<and>
   sendMessage 1700000000000
       (new_Chat\<lparr>inputMessage := [CHR 0x20, CHR 0xE3, CHR 0x80, CHR 0x80, CHR 0x09]\<rparr>)
     = new_Chat\<lparr>inputMessage := [CHR 0x20, CHR 0xE3, CHR 0x80, CHR 0x80, CHR 0x09]\<rparr> \<and>
   sendMessage 1700000000000 (new_Chat\<lparr>inputMessage := ''hello'', isLoading := True\<rparr>)
     = new_Chat\<lparr>inputMessage := ''hello'', isLoading := True\<rparr> \<and>
   sendMessage 1700000000000 new_Chat = new_Chat"
proof -
  have ws: "isWhiteSpace [CHR 0x20]" "isWhiteSpace [CHR 0xE3, CHR 0x80, CHR 0x80]"
    "isWhiteSpace [CHR 0x09]"
    by (simp_all add: isWhiteSpace_def whiteSpaces_def)
  have a: "(\<exists>ws. (\<forall>w \<in> set ws. isWhiteSpace w) \<and>
              inputMessage (new_Chat\<lparr>inputMessage := [CHR 0x20, CHR 0xE3, CHR 0x80, CHR 0x80, CHR 0x09]\<rparr>)
                = concat ws) \<or>
           isLoading (new_Chat\<lparr>inputMessage := [CHR 0x20, CHR 0xE3, CHR 0x80, CHR 0x80, CHR 0x09]\<rparr>)"
    using ws
    by (intro disjI1 exI[of _ "[[CHR 0x20], [CHR 0xE3, CHR 0x80, CHR 0x80], [CHR 0x09]]"]) simp
  have b: "(\<exists>ws. (\<forall>w \<in> set ws. isWhiteSpace w) \<and>
              inputMessage (new_Chat\<lparr>inputMessage := ''hello'', isLoading := True\<rparr>) = concat ws) \<or>
           isLoading (new_Chat\<lparr>inputMessage := ''hello'', isLoading := True\<rparr>)"
    by simp
  have c: "(\<exists>ws. (\<forall>w \<in> set ws. isWhiteSpace w) \<and> inputMessage new_Chat = concat ws) \<or>
           isLoading new_Chat"
    by (intro disjI1 exI[of _ "[]"]) (simp add: new_Chat_def)
  from sendMessage_blank_or_loading[OF a, of 1700000000000]
       sendMessage_blank_or_loading[OF b, of 1700000000000]
       sendMessage_blank_or_loading[OF c, of 1700000000000]
       ws
  show ?thesis
    by simp
qed

lemma filterAi_filter:
  "\<forall>m \<in> set elems. \<not> nullish m \<Longrightarrow>
   filterAi elems = Inr (filter (\<lambda>msg. propOf msg ''type'' = JStr ''ai'') elems)"
  by (induction elems) (simp_all add: getProp_def)

lemma agentContentOf_reply:
  assumes "\<not> nullish data"
    and "\<forall>elems. propOf data ''messages'' = JArr elems \<longrightarrow> (\<forall>m \<in> set elems. \<not> nullish m)"
  shows "\<exists>v. agentContentOf data = Inr v \<and>
             (if truthy v then v else JStr ''No response received'') = expectedReply data"
proof (cases "propOf data ''messages''")
  case (JArr elems)
  with assms(2) have nn: "\<forall>m \<in> set elems. \<not> nullish m" by simp
  let ?ais = "filter (\<lambda>msg. propOf msg ''type'' = JStr ''ai'') elems"
  show ?thesis
  proof (cases ?ais)
    case Nil
    with JArr assms(1) nn show ?thesis
      by (simp add: agentContentOf_def getProp_def filterAi_filter expectedReply_def)
  next
    case (Cons m ms)
    then have "last ?ais \<in> set ?ais" by simp
    then have "last ?ais \<in> set elems" by simp
    with nn have "\<not> nullish (last ?ais)" by blast
    with Cons JArr assms(1) nn show ?thesis
      by (simp add: agentContentOf_def getProp_def filterAi_filter expectedReply_def)
  qed
qed (use assms(1) in \<open>simp_all add: agentContentOf_def getProp_def expectedReply_def\<close>)

text \<open>
  C8. When the run request is answered with a 2xx status and a JSON body, the chat appends
  one message of the agent whose content is \<open>expectedReply\<close> of the body: the content of
  the last element of type \<^verbatim>\<open>'ai'\<close> of the \<^verbatim>\<open>messages\<close> array, or \<^verbatim>\<open>'No response received'\<close>
  when there is no such array, no such element, or that content is empty. The body is
  the one read at line 104, a JSON value; it and the elements of the array are taken not
  to be \<^verbatim>\<open>null\<close>, of which no property can be read.
\<close>

theorem deliverMessage_reply:
  assumes "threadId c = Some tid" and "tid \<noteq> []" and "pendingMessage c \<noteq> []"
    and "authenticatedFetch srv (''/api/threads/'' @ tid @ ''/runs/wait'')
           (runRequest (pendingMessage c)) (svc, net) = (Inr response, svc', net')"
    and "ok response" and "payload response = Some data" and "\<not> nullish data"
    and "\<forall>elems. propOf data ''messages'' = JArr elems \<longrightarrow> (\<forall>m \<in> set elems. \<not> nullish m)"
  shows "deliverMessage srv now (c, svc, net) =
     (c\<lparr>messages := messages c @
          [\<lparr>ident = showNat (now + 1), content = expectedReply data,
            sender = AAD_Agent, timestamp = now\<rparr>],
        isLoading := False, pendingMessage := [], shouldSendMessage := False\<rparr>, svc', net')"
proof -
  from agentContentOf_reply[OF assms(7,8)] obtain v
    where v: "agentContentOf data = Inr v"
      and r: "(if truthy v then v else JStr ''No response received'') = expectedReply data"
    by blast
  from assms(1-6) v r show ?thesis
    by (simp add: deliverMessage_def json_def Let_def)
qed

lemma showNat_stamp: "showNat 1700000000001 = ''1700000000001''"
  by (simp add: showNat.simps)

lemma authenticatedFetch_backend_run:
  "authenticatedFetch backend ''/api/threads/t1/runs/wait'' (runRequest ''hi'') (new_AuthService, []) =
     (Inr runResponse,
      new_AuthService\<lparr>tokenStore := Some \<lparr>access_token = JStr ''AT'', id_token = JStr ''IT''\<rparr>\<rparr>,
      [\<lparr>url = ''/api/auth/tokens'', init = GET_include\<rparr>,
       \<lparr>url = ''/api/threads/t1/runs/wait'', init = (runRequest ''hi'')\<lparr>credentials := Some ''include'',
          headers := [(''Content-Type'', JStr ''application/json''),
                      (''azure-access-token'', JStr ''AT''), (''azure-id-token'', JStr ''IT'')]\<rparr>\<rparr>])"
proof -
  have hs: "headers (runRequest ''hi'') = [(''Content-Type'', JStr ''application/json'')]"
    by (simp add: runRequest_def)
  have st: "status runResponse \<noteq> 401" by (simp add: runResponse_def)
  have first: "getAuthHeaders backend (new_AuthService, []) =
     (Some [(''azure-access-token'', JStr ''AT''), (''azure-id-token'', JStr ''IT'')],
      new_AuthService\<lparr>tokenStore := Some \<lparr>access_token = JStr ''AT'', id_token = JStr ''IT''\<rparr>\<rparr>,
      [\<lparr>url = ''/api/auth/tokens'', init = GET_include\<rparr>])"
    by (simp add: getAuthHeaders_idle new_AuthService_def tokensRequest_def backend_tokens
        tokensIn_tokenResponse)
  have b: "\<And>n i. backend n \<lparr>url = ''/api/threads/t1/runs/wait'', init = i\<rparr> = Resolved runResponse"
    by (simp add: backend_def)
  show ?thesis
    by (simp add: authenticatedFetch_def first hs spread_headers fetch_def b st)
qed

lemma expectedReply_runResponse:
  "expectedReply (JObj [(''messages'',
       JArr [JObj [(''type'', JStr ''human''), (''content'', JStr ''hello'')],
             JObj [(''type'', JStr ''ai''), (''content'', JStr ''first'')],
             JObj [(''type'', JStr ''tool''), (''content'', JStr ''x'')],
             JObj [(''type'', JStr ''ai''), (''content'', JStr ''second'')]])]) = JStr ''second''"
  by (simp add: expectedReply_def)

theorem deliverMessage_reply_witness:
  "threadId (new_Chat\<lparr>isAuthenticated := True, threadId := Some ''t1'', pendingMessage := ''hi'',
                     shouldSendMessage := True\<rparr>) = Some ''t1'' \<and>
   ok runResponse \<and>
   deliverMessage backend 1700000000000
     (new_Chat\<lparr>isAuthenticated := True, threadId := Some ''t1'', pendingMessage := ''hi'',
               shouldSendMessage := True\<rparr>, new_AuthService, [])
   = (new_Chat\<lparr>isAuthenticated := True, threadId := Some ''t1'',
        messages := [\<lparr>ident = ''1700000000001'', content = JStr ''second'',
                      sender = AAD_Agent, timestamp = 1700000000000\<rparr>]\<rparr>,
      new_AuthService\<lparr>tokenStore := Some \<lparr>access_token = JStr ''AT'', id_token = JStr ''IT''\<rparr>\<rparr>,
      [\<lparr>url = ''/api/auth/tokens'', init = GET_include\<rparr>,
       \<lparr>url = ''/api/threads/t1/runs/wait'', init = (runRequest ''hi'')\<lparr>credentials := Some ''include'',
          headers := [(''Content-Type'', JStr ''application/json''),
                      (''azure-access-token'', JStr ''AT''), (''azure-id-token'', JStr ''IT'')]\<rparr>\<rparr>])"
proof -
  let ?c = "new_Chat\<lparr>isAuthenticated := True, threadId := Some ''t1'', pendingMessage := ''hi'',
                     shouldSendMessage := True\<rparr>"
  let ?data = "JObj [(''messages'',
       JArr [JObj [(''type'', JStr ''human''), (''content'', JStr ''hello'')],
             JObj [(''type'', JStr ''ai''), (''content'', JStr ''first'')],
             JObj [(''type'', JStr ''tool''), (''content'', JStr ''x'')],
             JObj [(''type'', JStr ''ai''), (''content'', JStr ''second'')]])]"
  have h: "threadId ?c = Some ''t1''" "''t1'' \<noteq> []" "pendingMessage ?c \<noteq> []"
    by (simp_all add: new_Chat_def)
  have f: "authenticatedFetch backend (''/api/threads/'' @ ''t1'' @ ''/runs/wait'')
           (runRequest (pendingMessage ?c)) (new_AuthService, []) =
       (Inr runResponse,
      new_AuthService\<lparr>tokenStore := Some \<lparr>access_token = JStr ''AT'', id_token = JStr ''IT''\<rparr>\<rparr>,
      [\<lparr>url = ''/api/auth/tokens'', init = GET_include\<rparr>,
       \<lparr>url = ''/api/threads/t1/runs/wait'', init = (runRequest ''hi'')\<lparr>credentials := Some ''include'',
          headers := [(''Content-Type'', JStr ''application/json''),
                      (''azure-access-token'', JStr ''AT''), (''azure-id-token'', JStr ''IT'')]\<rparr>\<rparr>])"
    using authenticatedFetch_backend_run by (simp add: new_Chat_def)
  have r: "ok runResponse" "payload runResponse = Some ?data" "\<not> nullish ?data"
    by (simp_all add: runResponse_def ok_def nullish_def)
  have e: "\<forall>elems. propOf ?data ''messages'' = JArr elems \<longrightarrow> (\<forall>m \<in> set elems. \<not> nullish m)"
    by (auto simp: nullish_def)
  from deliverMessage_reply[OF h f r e, of 1700000000000] h r
  show ?thesis
    by (simp add: expectedReply_runResponse showNat_stamp new_Chat_def)
qed

text \<open>
  Outside these conditions the \<^verbatim>\<open>catch\<close> of \<^verbatim>\<open>deliverMessage\<close> speaks: for a response
  with a status that is not 2xx the reply is the error message, not the fallback.
\<close>

lemma deliverMessage_not_ok:
  assumes "threadId c = Some tid" and "tid \<noteq> []" and "pendingMessage c \<noteq> []"
    and "authenticatedFetch srv (''/api/threads/'' @ tid @ ''/runs/wait'')
           (runRequest (pendingMessage c)) (svc, net) = (Inr response, svc', net')"
    and "\<not> ok response"
  shows "messages (fst (deliverMessage srv now (c, svc, net))) = messages c @
          [\<lparr>ident = showNat (now + 1),
            content = JStr (''Sorry, there was an error processing your message. Error: '' @
                            ''Error: Failed to get agent response: '' @ showNat (status response)),
            sender = AAD_Agent, timestamp = now\<rparr>]"
  using assms by (simp add: deliverMessage_def Let_def)

section \<open>Properties of the callback page\<close>

lemma given_iff: "given x \<longleftrightarrow> (\<exists>s. x = Some s \<and> s \<noteq> [])"
  by (cases x) auto

text \<open>
  C5, as stated, fails on a query string that names \<^verbatim>\<open>error\<close> and \<^verbatim>\<open>scope\<close> with empty
  values, \<^verbatim>\<open>?code=abc&error=&scope=\<close>: the query string contains an error parameter and a
  scope parameter, and yet the exchange request is sent, without \<^verbatim>\<open>scopes\<close>.
\<close>

theorem AuthCallback_empty_error_counterexample:
  "searchParams_get [(''code'', ''abc''), (''error'', ''''), (''scope'', '''')] ''error'' = Some '''' \<and>
   searchParams_get [(''code'', ''abc''), (''error'', ''''), (''scope'', '''')] ''scope'' = Some '''' \<and>
   AuthCallback_effect id backend [(''code'', ''abc''), (''error'', ''''), (''scope'', '''')]
     (new_AuthCallback, [])
   = (\<lparr>callbackStatus = ''Authentication successful! Redirecting...'', replacedBy = Some ''/''\<rparr>,
      [\<lparr>url = ''/api/auth/callback?code=abc'', init = GET_include\<rparr>])"
  by (simp add: searchParams_get_def AuthCallback_effect_def handleCallback_def fetch_def
      backend_def runResponse_def ok_def new_AuthCallback_def)

text \<open>
  C5, amended. A parameter counts when its value is not empty. For every query string
  with a non-empty \<^verbatim>\<open>error\<close> parameter the page sends no request and shows
  \<^verbatim>\<open>'Authentication failed: '\<close> followed by the error. The exchange request is sent only
  when there is a non-empty \<^verbatim>\<open>code\<close> parameter and no non-empty \<^verbatim>\<open>error\<close> parameter, and
  then it is the one request sent; its URL ends with \<^verbatim>\<open>&scopes=...\<close> if and only if the
  query string has a non-empty \<^verbatim>\<open>scope\<close> parameter.
\<close>

theorem AuthCallback_exchange:
  "(\<forall>e. searchParams_get params ''error'' = Some e \<and> e \<noteq> [] \<longrightarrow>
        AuthCallback_effect enc srv params (page, net) =
          (page\<lparr>callbackStatus := ''Authentication failed: '' @ e\<rparr>, net)) \<and>
   (snd (AuthCallback_effect enc srv params (page, net)) \<noteq> net \<longrightarrow>
        (\<exists>c. searchParams_get params ''code'' = Some c \<and> c \<noteq> []) \<and>
        (searchParams_get params ''error'' = None \<or> searchParams_get params ''error'' = Some [])) \<and>
   (\<forall>c. searchParams_get params ''code'' = Some c \<and> c \<noteq> [] \<and>
        (searchParams_get params ''error'' = None \<or> searchParams_get params ''error'' = Some []) \<longrightarrow>
        snd (AuthCallback_effect enc srv params (page, net)) =
          net @ [\<lparr>url = ''/api/auth/callback?code='' @ enc c @
                    (case searchParams_get params ''scope'' of
                       None \<Rightarrow> []
                     | Some s \<Rightarrow> if s = [] then [] else ''&scopes='' @ enc s),
                  init = GET_include\<rparr>])"
proof (intro conjI allI impI)
  fix e assume "searchParams_get params ''error'' = Some e \<and> e \<noteq> []"
  then show "AuthCallback_effect enc srv params (page, net) =
          (page\<lparr>callbackStatus := ''Authentication failed: '' @ e\<rparr>, net)"
    by (simp add: AuthCallback_effect_def)
next
  assume sent: "snd (AuthCallback_effect enc srv params (page, net)) \<noteq> net"
  have g: "given (searchParams_get params ''code'') \<and> \<not> given (searchParams_get params ''error'')"
  proof (rule ccontr)
    assume "\<not> ?thesis"
    then have "snd (AuthCallback_effect enc srv params (page, net)) = net"
      by (auto simp: AuthCallback_effect_def Let_def)
    with sent show False by simp
  qed
  from g show "\<exists>c. searchParams_get params ''code'' = Some c \<and> c \<noteq> []"
    by (simp add: given_iff)
  from g show "searchParams_get params ''error'' = None \<or> searchParams_get params ''error'' = Some []"
    by (cases "searchParams_get params ''error''") auto
next
  fix c
  assume a: "searchParams_get params ''code'' = Some c \<and> c \<noteq> [] \<and>
        (searchParams_get params ''error'' = None \<or> searchParams_get params ''error'' = Some [])"
  then have ne: "\<not> given (searchParams_get params ''error'')" by auto
  from a have gc: "given (searchParams_get params ''code'')" by simp
  show "snd (AuthCallback_effect enc srv params (page, net)) =
          net @ [\<lparr>url = ''/api/auth/callback?code='' @ enc c @
                    (case searchParams_get params ''scope'' of
                       None \<Rightarrow> []
                     | Some s \<Rightarrow> if s = [] then [] else ''&scopes='' @ enc s),
                  init = GET_include\<rparr>]"
  proof (cases "searchParams_get params ''scope''")
    case None
    with a ne gc show ?thesis
      by (simp add: AuthCallback_effect_def handleCallback_def fetch_def Let_def
          split: fetch_result.splits)
  next
    case (Some s)
    with a ne gc show ?thesis
      by (simp add: AuthCallback_effect_def handleCallback_def fetch_def Let_def
          split: fetch_result.splits)
  qed
qed

theorem AuthCallback_exchange_witness:
  "searchParams_get [(''error'', ''access_denied''), (''code'', ''abc'')] ''error'' = Some ''access_denied'' \<and>
   AuthCallback_effect id backend [(''error'', ''access_denied''), (''code'', ''abc'')] (new_AuthCallback, [])
     = (\<lparr>callbackStatus = ''Authentication failed: access_denied'', replacedBy = None\<rparr>, []) \<and>
   searchParams_get [(''code'', ''abc''), (''scope'', ''openid'')] ''code'' = Some ''abc'' \<and>
   searchParams_get [(''code'', ''abc''), (''scope'', ''openid'')] ''error'' = None \<and>
   snd (AuthCallback_effect id backend [(''code'', ''abc''), (''scope'', ''openid'')] (new_AuthCallback, []))
     = [\<lparr>url = ''/api/auth/callback?code=abc&scopes=openid'', init = GET_include\<rparr>] \<and>
   snd (AuthCallback_effect id backend [(''code'', ''abc'')] (new_AuthCallback, []))
     = [\<lparr>url = ''/api/auth/callback?code=abc'', init = GET_include\<rparr>]"
proof -
  have h: "searchParams_get [(''error'', ''access_denied''), (''code'', ''abc'')] ''error'' = Some ''access_denied''"
    "searchParams_get [(''code'', ''abc''), (''scope'', ''openid'')] ''code'' = Some ''abc''"
    "searchParams_get [(''code'', ''abc''), (''scope'', ''openid'')] ''error'' = None"
    "searchParams_get [(''code'', ''abc''), (''scope'', ''openid'')] ''scope'' = Some ''openid''"
    "searchParams_get [(''code'', ''abc'')] ''code'' = Some ''abc''"
    "searchParams_get [(''code'', ''abc'')] ''error'' = None"
    "searchParams_get [(''code'', ''abc'')] ''scope'' = None"
    by (simp_all add: searchParams_get_def)
  from AuthCallback_exchange[where params = "[(''error'', ''access_denied''), (''code'', ''abc'')]"
         and enc = id and srv = backend and page = new_AuthCallback and net = "[]"]
       AuthCallback_exchange[where params = "[(''code'', ''abc''), (''scope'', ''openid'')]"
         and enc = id and srv = backend and page = new_AuthCallback and net = "[]"]
       AuthCallback_exchange[where params = "[(''code'', ''abc'')]"
         and enc = id and srv = backend and page = new_AuthCallback and net = "[]"]
       h
  show ?thesis
    by (simp add: new_AuthCallback_def)
qed

section \<open>Properties of interleaved calls of getTokens\<close>

lemma sharing_start: "quiet w0 \<Longrightarrow> sharing w0 (step Call w0)"
  by (auto simp: quiet_def sharing_def settling_def list_all_iff less_Suc_eq image_iff)

lemma find_waiting:
  "find (\<lambda>(c', p, created). c' = c) ws = Some (c', p, created) \<Longrightarrow> c' = c \<and> (c, p, created) \<in> set ws"
  by (auto simp: find_Some_iff in_set_conv_nth)

lemma find_waiting_ex:
  "c \<in> fst ` set ws \<Longrightarrow> \<exists>p created. find (\<lambda>(c', p, created). c' = c) ws = Some (c, p, created)"
proof (induction ws)
  case Nil
  then show ?case by simp
next
  case (Cons x ws)
  obtain c' p created where x: "x = (c', p, created)" by (cases x) auto
  show ?case
  proof (cases "c' = c")
    case True
    with x show ?thesis by simp
  next
    case False
    with Cons x show ?thesis by simp
  qed
qed

text \<open>What \<open>Resume\<close> does: nothing, or it moves the call from \<open>waiting\<close> to \<open>returned\<close>.\<close>

lemma step_Resume:
  obtains (same) "step (Resume c) w = w"
  | (moved) p created v where "(c, p, created) \<in> set (waiting w)" and "p < length (promises w)"
      and "promises w ! p = Fulfilled v"
      and "step (Resume c) w =
             (if created
              then w\<lparr>waiting := filter (\<lambda>(c', p, created). c' \<noteq> c) (waiting w),
                     returned := returned w @ [(c, v)],
                     service := (service w)\<lparr>refreshPromise := None\<rparr>\<rparr>
              else w\<lparr>waiting := filter (\<lambda>(c', p, created). c' \<noteq> c) (waiting w),
                     returned := returned w @ [(c, v)]\<rparr>)"
proof (cases "find (\<lambda>(c', p, created). c' = c) (waiting w)")
  case None
  then have "step (Resume c) w = w" by simp
  then show ?thesis by (rule same)
next
  case (Some x)
  obtain c' p created where x: "x = (c', p, created)" by (cases x) auto
  from Some x find_waiting[of c "waiting w" c' p created]
  have mem: "(c, p, created) \<in> set (waiting w)" and "c' = c"
    by auto
  show ?thesis
  proof (cases "p < length (promises w)")
    case False
    with Some x have "step (Resume c) w = w" by simp
    then show ?thesis by (rule same)
  next
    case True
    show ?thesis
    proof (cases "promises w ! p")
      case Pending
      with Some x True have "step (Resume c) w = w" by simp
      then show ?thesis by (rule same)
    next
      case (Fulfilled v)
      with Some x True have "step (Resume c) w =
             (if created
              then w\<lparr>waiting := filter (\<lambda>(c', p, created). c' \<noteq> c) (waiting w),
                     returned := returned w @ [(c, v)],
                     service := (service w)\<lparr>refreshPromise := None\<rparr>\<rparr>
              else w\<lparr>waiting := filter (\<lambda>(c', p, created). c' \<noteq> c) (waiting w),
                     returned := returned w @ [(c, v)]\<rparr>)"
        by simp
      with mem True Fulfilled show ?thesis by (rule moved)
    qed
  qed
qed

text \<open>A call that moves keeps \<open>settling\<close>, whatever becomes of the registered refresh.\<close>

lemma settling_moved:
  assumes "settling w0 w" and "(c, p, created) \<in> set (waiting w)" and "promises w ! p = Fulfilled v"
  shows "settling w0 (w\<lparr>waiting := filter (\<lambda>(c', p, created). c' \<noteq> c) (waiting w),
                         returned := returned w @ [(c, v)]\<rparr>)"
proof -
  have pv: "calls w0 \<le> c \<Longrightarrow> promises w ! length (promises w0) = Fulfilled v"
    using assms by (auto simp: settling_def)
  have cl: "c < calls w" using assms(1,2) by (auto simp: settling_def)
  have cov: "d \<in> fst ` set (filter (\<lambda>(c', p, created). c' \<noteq> c) (waiting w)) \<or>
             d \<in> fst ` set (returned w @ [(c, v)])"
    if d: "calls w0 \<le> d \<and> d < calls w" for d
  proof (cases "d = c")
    case True
    then show ?thesis by simp
  next
    case False
    from d assms(1) have "d \<in> fst ` set (waiting w) \<or> d \<in> fst ` set (returned w)"
      by (simp add: settling_def)
    with False show ?thesis by force
  qed
  from assms(1) pv cl cov show ?thesis
    unfolding settling_def by simp blast
qed

lemma settling_service: "settling w0 (w\<lparr>service := s\<rparr>) = settling w0 w"
  by (simp add: settling_def)

lemma settling_step:
  assumes "settling w0 w" and "e \<noteq> Invalidate" and "e \<noteq> Call"
  shows "settling w0 (step e w)"
proof (cases e)
  case Call
  with assms(3) show ?thesis by simp
next
  case (Settle p r)
  show ?thesis
  proof (cases "p < length (promises w) \<and> promises w ! p = Pending")
    case False
    with Settle assms(1) show ?thesis by auto
  next
    case True
    have "\<And>v. promises w ! length (promises w0) = Fulfilled v \<Longrightarrow> p \<noteq> length (promises w0)"
      using True by auto
    with True Settle assms(1) show ?thesis
      by (simp add: settling_def settle_tokensIn)
  qed
next
  case (Resume c)
  show ?thesis
  proof (cases rule: step_Resume[of c w])
    case same
    with Resume assms(1) show ?thesis by simp
  next
    case (moved p created v)
    have "settling w0 (w\<lparr>waiting := filter (\<lambda>(c', p, created). c' \<noteq> c) (waiting w),
                           returned := returned w @ [(c, v)]\<rparr>)"
      using assms(1) moved(1,3) by (rule settling_moved)
    then show ?thesis
      unfolding Resume moved(4) by (simp add: settling_service)
  qed
next
  case Invalidate
  with assms(2) show ?thesis by simp
qed

lemma sharing_step:
  assumes "sharing w0 w" and "e \<noteq> Invalidate" and "e \<noteq> Resume (calls w0)"
  shows "sharing w0 (step e w)"
proof (cases e)
  case Call
  with assms(1) show ?thesis
    by (auto simp: sharing_def settling_def less_Suc_eq image_iff)
next
  case (Settle p r)
  from assms(1) have "settling w0 (step e w)"
    unfolding Settle by (intro settling_step) (simp_all add: sharing_def)
  moreover have "waiting (step e w) = waiting w"
    "refreshPromise (service (step e w)) = refreshPromise (service w)"
    unfolding Settle by (simp_all add: settle_tokensIn)
  ultimately show ?thesis using assms(1) by (simp add: sharing_def)
next
  case (Resume c)
  with assms(3) have cne: "c \<noteq> calls w0" by simp
  show ?thesis
  proof (cases rule: step_Resume[of c w])
    case same
    with Resume assms(1) show ?thesis by simp
  next
    case (moved p created v)
    from moved(1) assms(1) cne have nc: "\<not> created"
      by (cases created) (auto simp: sharing_def)
    from assms(1) have "settling w0 w" by (simp add: sharing_def)
    then have "settling w0 (w\<lparr>waiting := filter (\<lambda>(c', p, created). c' \<noteq> c) (waiting w),
                           returned := returned w @ [(c, v)]\<rparr>)"
      using moved(1,3) by (rule settling_moved)
    with assms(1) show ?thesis
      unfolding Resume moved(4) using nc by (simp add: sharing_def)
  qed
next
  case Invalidate
  with assms(2) show ?thesis by simp
qed

lemma sharing_run:
  "sharing w0 w \<Longrightarrow> Invalidate \<notin> set evs \<Longrightarrow> Resume (calls w0) \<notin> set evs \<Longrightarrow>
   sharing w0 (run evs w)"
proof (induction evs arbitrary: w)
  case Nil
  then show ?case by (simp add: run_def)
next
  case (Cons e evs)
  from Cons.prems have "sharing w0 (step e w)"
    by (intro sharing_step) auto
  with Cons show ?case by (simp add: run_def)
qed

lemma settling_run:
  "settling w0 w \<Longrightarrow> Invalidate \<notin> set evs \<Longrightarrow> Call \<notin> set evs \<Longrightarrow> settling w0 (run evs w)"
proof (induction evs arbitrary: w)
  case Nil
  then show ?case by (simp add: run_def)
next
  case (Cons e evs)
  from Cons.prems have "settling w0 (step e w)"
    by (intro settling_step) auto
  with Cons show ?case by (simp add: run_def)
qed

lemma run_append: "run (xs @ ys) w = run ys (run xs w)"
  by (simp add: run_def)

lemma settling_batch:
  assumes "quiet w0"
    and "Invalidate \<notin> set evs1" and "Resume (calls w0) \<notin> set evs1"
    and "Invalidate \<notin> set evs2" and "Call \<notin> set evs2"
  shows "settling w0 (run (evs1 @ evs2) (step Call w0))"
proof -
  have "sharing w0 (run evs1 (step Call w0))"
    using assms(1-3) by (intro sharing_run sharing_start)
  then have "settling w0 (run evs1 (step Call w0))"
    by (simp add: sharing_def)
  then show ?thesis
    using assms(4,5) by (simp add: run_append settling_run)
qed

lemma returned_mono: "x \<in> set (returned w) \<Longrightarrow> x \<in> set (returned (step e w))"
proof (cases e)
  case Call
  then show "x \<in> set (returned w) \<Longrightarrow> ?thesis" by (simp split: option.splits)
next
  case (Settle p r)
  then show "x \<in> set (returned w) \<Longrightarrow> ?thesis" by (simp add: settle_tokensIn)
next
  case (Resume c)
  assume "x \<in> set (returned w)"
  then show ?thesis unfolding Resume by (cases rule: step_Resume[of c w]) simp_all
next
  case Invalidate
  then show "x \<in> set (returned w) \<Longrightarrow> ?thesis" by simp
qed

lemma calls_Resume: "calls (step (Resume d) w) = calls w"
  by (cases rule: step_Resume[of d w]) simp_all

lemma promises_Resume: "promises (step (Resume d) w) = promises w"
  by (cases rule: step_Resume[of d w]) simp_all

lemma waiting_Resume:
  assumes "c \<noteq> d" and "c \<in> fst ` set (waiting w)"
  shows "c \<in> fst ` set (waiting (step (Resume d) w))"
proof (cases rule: step_Resume[of d w])
  case same
  with assms show ?thesis by simp
next
  case (moved p created v)
  from assms have "c \<in> fst ` set (filter (\<lambda>(c', p, created). c' \<noteq> d) (waiting w))"
    by force
  with moved(4) show ?thesis by simp
qed

lemma calls_run: "calls (run evs w) = calls w + length (filter (\<lambda>e. e = Call) evs)"
proof (induction evs arbitrary: w)
  case Nil
  then show ?case by (simp add: run_def)
next
  case (Cons e evs)
  have "calls (step e w) = calls w + (if e = Call then 1 else 0)"
  proof (cases e)
    case Call
    then show ?thesis by (simp split: option.splits)
  next
    case (Settle p r)
    then show ?thesis by (simp add: settle_tokensIn)
  next
    case (Resume c)
    then show ?thesis by (simp only: calls_Resume) simp
  next
    case Invalidate
    then show ?thesis by simp
  qed
  with Cons.IH[of "step e w"] show ?case by (simp add: run_def)
qed

text \<open>A waiting call of the batch returns the value of the shared promise when resumed.\<close>

lemma resume_returns:
  assumes "settling w0 w" and "promises w ! length (promises w0) = Fulfilled v"
    and "calls w0 \<le> c" and "c \<in> fst ` set (waiting w)"
  shows "(c, v) \<in> set (returned (step (Resume c) w))"
proof -
  from find_waiting_ex[OF assms(4)] obtain p created
    where f: "find (\<lambda>(c', p, created). c' = c) (waiting w) = Some (c, p, created)"
    by auto
  from find_waiting[OF f] have "(c, p, created) \<in> set (waiting w)"
    by simp
  with assms(1,3) have p: "p = length (promises w0)" and "p < length (promises w)"
    by (auto simp: settling_def)
  with f assms(2) show ?thesis
    by (simp add: Let_def)
qed

lemma resume_all:
  assumes "settling w0 w" and "promises w ! length (promises w0) = Fulfilled v"
    and "calls w0 \<le> c"
    and "(c \<in> set cs \<and> c \<in> fst ` set (waiting w)) \<or> (c, v) \<in> set (returned w)"
  shows "(c, v) \<in> set (returned (run (map Resume cs) w))"
  using assms
proof (induction cs arbitrary: w)
  case Nil
  then show ?case by (simp add: run_def)
next
  case (Cons d cs)
  let ?w = "step (Resume d) w"
  have p2: "settling w0 ?w" using Cons.prems(1) by (intro settling_step) auto
  have ff: "promises ?w ! length (promises w0) = Fulfilled v"
    using Cons.prems(2) by (simp only: promises_Resume)
  have "(c \<in> set cs \<and> c \<in> fst ` set (waiting ?w)) \<or> (c, v) \<in> set (returned ?w)"
  proof (cases "(c, v) \<in> set (returned w)")
    case True
    then show ?thesis using returned_mono by blast
  next
    case False
    with Cons.prems(4) have cw: "c \<in> set (d # cs)" "c \<in> fst ` set (waiting w)" by auto
    show ?thesis
    proof (cases "c = d")
      case True
      with resume_returns[OF Cons.prems(1,2,3) cw(2)] show ?thesis by simp
    next
      case False
      with cw waiting_Resume show ?thesis by auto
    qed
  qed
  from Cons.IH[OF p2 ff Cons.prems(3) this] show ?case
    by (simp add: run_def)
qed

text \<open>
  Once the request settles and every waiting call is resumed, every call of the batch has
  returned, with one and the same value.
\<close>

lemma settle_resume_all:
  assumes p2: "settling w0 w"
  shows "\<exists>v. (promises w ! length (promises w0) = Pending \<longrightarrow> v = tokensIn r) \<and>
           (\<forall>c. calls w0 \<le> c \<and> c < calls w \<longrightarrow>
              (c, v) \<in> set (returned (run (Settle (length (promises w0)) r #
                                              map Resume (map fst (waiting w))) w)))"
proof -
  let ?p0 = "length (promises w0)"
  let ?w1 = "step (Settle ?p0 r) w"
  have len: "?p0 < length (promises w)" using p2 by (simp add: settling_def)
  have p21: "settling w0 ?w1" using p2 by (intro settling_step) auto
  have same: "waiting ?w1 = waiting w" "calls ?w1 = calls w" "returned ?w1 = returned w"
    by (simp_all add: settle_tokensIn)
  obtain v where v: "promises ?w1 ! ?p0 = Fulfilled v"
      and vp: "promises w ! ?p0 = Pending \<longrightarrow> v = tokensIn r"
      and vf: "\<And>v'. promises w ! ?p0 = Fulfilled v' \<Longrightarrow> v' = v"
  proof (cases "promises w ! ?p0")
    case Pending
    with len have "promises ?w1 ! ?p0 = Fulfilled (tokensIn r)"
      by (simp add: settle_tokensIn)
    with Pending that show ?thesis by simp
  next
    case (Fulfilled v')
    then have "promises ?w1 ! ?p0 = Fulfilled v'" by simp
    with Fulfilled that show ?thesis by simp
  qed
  have "(c, v) \<in> set (returned (run (map Resume (map fst (waiting w))) ?w1))"
    if c: "calls w0 \<le> c \<and> c < calls w" for c
  proof -
    from p2 c have "c \<in> fst ` set (waiting w) \<or> c \<in> fst ` set (returned w)"
      by (simp add: settling_def)
    then have "(c \<in> set (map fst (waiting w)) \<and> c \<in> fst ` set (waiting ?w1)) \<or>
               (c, v) \<in> set (returned ?w1)"
    proof
      assume "c \<in> fst ` set (waiting w)"
      then show ?thesis unfolding same by simp
    next
      assume "c \<in> fst ` set (returned w)"
      then obtain v' where m: "(c, v') \<in> set (returned w)" by auto
      with p2 c have "promises w ! ?p0 = Fulfilled v'" by (simp add: settling_def)
      with vf m show ?thesis unfolding same by simp
    qed
    with resume_all[OF p21 v, of c "map fst (waiting w)"] c show ?thesis by simp
  qed
  then have "\<forall>c. calls w0 \<le> c \<and> c < calls w \<longrightarrow>
     (c, v) \<in> set (returned (run (Settle ?p0 r # map Resume (map fst (waiting w))) w))"
    by (simp add: run_def)
  with vp show ?thesis by blast
qed

text \<open>
  C1, amended. Let a call of \<^verbatim>\<open>getTokens()\<close> be made in a quiet state \<open>w0\<close> (no refresh is
  registered and no call that created an earlier promise is still waiting), and let
  anything follow that calls of \<^verbatim>\<open>getTokens()\<close> alone can bring about: further calls, the
  request settling, calls resuming (\<open>evs1\<close>, before the first call has resumed; then
  \<open>evs2\<close>, with no further call), while neither the 401 handling of
  \<^verbatim>\<open>authenticatedFetch\<close> nor \<^verbatim>\<open>logout\<close> clears \<^verbatim>\<open>refreshPromise\<close>. Then exactly one request
  to \<^verbatim>\<open>/auth/tokens\<close> has been sent, however many calls \<open>evs1\<close> holds; every call of the
  batch that is still waiting waits for the promise of that one request; every call of
  the batch that has returned has returned the value of that promise; and once the
  request has settled and the waiting calls have resumed, all calls of the batch have
  returned one and the same value, which is what the response yields: the tokens or
  \<^verbatim>\<open>null\<close>.
\<close>

theorem getTokens_single_flight:
  assumes "quiet w0"
    and "Invalidate \<notin> set evs1" and "Resume (calls w0) \<notin> set evs1"
    and "Invalidate \<notin> set evs2" and "Call \<notin> set evs2"
  shows "let w = run (evs1 @ evs2) (step Call w0); p0 = length (promises w0) in
     sent w = sent w0 @ [tokensRequest (service w0)] \<and>
     calls w = Suc (calls w0) + length (filter (\<lambda>e. e = Call) evs1) \<and>
     (\<forall>c p created. (c, p, created) \<in> set (waiting w) \<and> calls w0 \<le> c \<longrightarrow> p = p0) \<and>
     (\<forall>c v. (c, v) \<in> set (returned w) \<and> calls w0 \<le> c \<longrightarrow> promises w ! p0 = Fulfilled v) \<and>
     (\<forall>r. \<exists>v. (promises w ! p0 = Pending \<longrightarrow> v = tokensIn r) \<and>
        (\<forall>c. calls w0 \<le> c \<and> c < calls w \<longrightarrow>
           (c, v) \<in> set (returned (run (Settle p0 r # map Resume (map fst (waiting w))) w))))"
proof -
  let ?w = "run (evs1 @ evs2) (step Call w0)"
  have p2: "settling w0 ?w" using assms by (rule settling_batch)
  have c0: "calls (step Call w0) = Suc (calls w0)"
    by (simp split: option.splits)
  from assms(5) have "filter (\<lambda>e. e = Call) evs2 = []"
    by (induction evs2) auto
  then have calls: "calls ?w = Suc (calls w0) + length (filter (\<lambda>e. e = Call) evs1)"
    unfolding calls_run c0 by simp
  have a: "sent ?w = sent w0 @ [tokensRequest (service w0)]"
    using p2 by (simp add: settling_def)
  have b: "\<forall>c p created. (c, p, created) \<in> set (waiting ?w) \<and> calls w0 \<le> c \<longrightarrow> p = length (promises w0)"
    using p2 unfolding settling_def by blast
  have c: "\<forall>c v. (c, v) \<in> set (returned ?w) \<and> calls w0 \<le> c \<longrightarrow>
             promises ?w ! length (promises w0) = Fulfilled v"
    using p2 unfolding settling_def by blast
  from a calls b c settle_resume_all[OF p2] show ?thesis
    unfolding Let_def by blast
qed

lemma run_Nil: "run [] w = w"
  by (simp add: run_def)

lemma run_Cons: "run (e # evs) w = run evs (step e w)"
  by (simp add: run_def)

text \<open>
  Three calls on a fresh page: the second is made while the request is under way, the
  third after the request has settled but before the first call has resumed.
\<close>

lemma batch_of_three:
  "run ([Call, Settle 0 (Resolved tokenResponse), Call, Resume 1] @ [Resume 0]) (step Call new_world) =
     \<lparr>service = \<lparr>baseUrl = ''/api'',
                 tokenStore = Some \<lparr>access_token = JStr ''AT'', id_token = JStr ''IT''\<rparr>,
                 refreshPromise = None\<rparr>,
      promises = [Fulfilled (Some \<lparr>access_token = JStr ''AT'', id_token = JStr ''IT''\<rparr>)],
      waiting = [(2, 0, False)],
      returned = [(1, Some \<lparr>access_token = JStr ''AT'', id_token = JStr ''IT''\<rparr>),
                  (0, Some \<lparr>access_token = JStr ''AT'', id_token = JStr ''IT''\<rparr>)],
      calls = 3,
      sent = [\<lparr>url = ''/api/auth/tokens'', init = GET_include\<rparr>]\<rparr>"
  by (simp add: run_Nil run_Cons new_world_def new_AuthService_def tokensRequest_def
      settle_tokensIn tokensIn_tokenResponse)

theorem getTokens_single_flight_witness:
  "quiet new_world \<and>
   Invalidate \<notin> set [Call, Settle 0 (Resolved tokenResponse), Call, Resume 1] \<and>
   Resume (calls new_world) \<notin> set [Call, Settle 0 (Resolved tokenResponse), Call, Resume 1] \<and>
   Invalidate \<notin> set [Resume 0] \<and> Call \<notin> set [Resume 0] \<and>
   sent (run ([Call, Settle 0 (Resolved tokenResponse), Call, Resume 1] @ [Resume 0]) (step Call new_world))
     = [\<lparr>url = ''/api/auth/tokens'', init = GET_include\<rparr>] \<and>
   calls (run ([Call, Settle 0 (Resolved tokenResponse), Call, Resume 1] @ [Resume 0]) (step Call new_world))
     = 3 \<and>
   returned (run ([Call, Settle 0 (Resolved tokenResponse), Call, Resume 1] @ [Resume 0]) (step Call new_world))
     = [(1, Some \<lparr>access_token = JStr ''AT'', id_token = JStr ''IT''\<rparr>),
        (0, Some \<lparr>access_token = JStr ''AT'', id_token = JStr ''IT''\<rparr>)] \<and>
   returned (run [Resume 2]
      (run ([Call, Settle 0 (Resolved tokenResponse), Call, Resume 1] @ [Resume 0]) (step Call new_world)))
     = [(1, Some \<lparr>access_token = JStr ''AT'', id_token = JStr ''IT''\<rparr>),
        (0, Some \<lparr>access_token = JStr ''AT'', id_token = JStr ''IT''\<rparr>),
        (2, Some \<lparr>access_token = JStr ''AT'', id_token = JStr ''IT''\<rparr>)]"
proof -
  have h: "quiet new_world"
    "Invalidate \<notin> set [Call, Settle 0 (Resolved tokenResponse), Call, Resume 1]"
    "Resume (calls new_world) \<notin> set [Call, Settle 0 (Resolved tokenResponse), Call, Resume 1]"
    "Invalidate \<notin> set [Resume 0]" "Call \<notin> set [Resume 0]"
    by (simp_all add: quiet_def new_world_def new_AuthService_def)
  from getTokens_single_flight[OF h] h show ?thesis
    unfolding batch_of_three Let_def
    by (simp add: run_Nil run_Cons new_world_def new_AuthService_def tokensRequest_def)
qed

text \<open>
  One call alone, from its start to its end, is what the section on AuthService runs:
  the result, the requests sent and the fields of the service are the same.
\<close>

lemma find_last:
  "\<forall>y \<in> set xs. \<not> P y \<Longrightarrow> P x \<Longrightarrow> find P (xs @ [x]) = Some x"
  by (induction xs) auto

lemma getTokens_alone:
  assumes "quiet w"
  shows "let S = \<lparr>baseUrl = baseUrl (service w), tokenStore = tokenStore (service w),
                  refreshPromise = None\<rparr> :: Service;
             w' = run [Call, Settle (length (promises w)) (srv (length (sent w)) (tokensRequest S)),
                       Resume (calls w)] w
         in returned w' = returned w @ [(calls w, fst (getTokens srv (S, sent w)))] \<and>
            sent w' = snd (snd (getTokens srv (S, sent w))) \<and>
            tokenStore (service w') = tokenStore (fst (snd (getTokens srv (S, sent w)))) \<and>
            baseUrl (service w') = baseUrl (fst (snd (getTokens srv (S, sent w)))) \<and>
            refreshPromise (service w') = None"
proof -
  from assms have rp: "refreshPromise (service w) = None"
    and fresh: "\<forall>y \<in> set (waiting w). \<not> (case y of (c', p, created) \<Rightarrow> c' = calls w)"
    by (auto simp: quiet_def list_all_iff)
  have f: "find (\<lambda>(c', p, created). c' = calls w) (waiting w @ [(calls w, length (promises w), True)])
             = Some (calls w, length (promises w), True)"
    using fresh by (intro find_last) auto
  show ?thesis
    by (simp add: Let_def run_Nil run_Cons rp f settle_tokensIn getTokens_idle tokensRequest_def)
qed

text \<open>
  C1, as stated, fails once line 91 of \<^verbatim>\<open>authenticatedFetch\<close> (\<^verbatim>\<open>// Clear any pending
  refresh\<close>) or line 141 of \<^verbatim>\<open>logout\<close> has run while a request is under way. The call
  made after it finds no refresh registered and sends a second request while the first
  is still pending; here the first is answered with tokens and the second with a 401,
  so the two concurrent calls return different results. And when the first call then
  resumes, line 56 clears the refresh that the second call has registered, so that a
  third call sends a third request while the second is still pending.
\<close>

theorem getTokens_invalidated_counterexample:
  "sent (run [Call, Invalidate, Call] new_world) =
     [\<lparr>url = ''/api/auth/tokens'', init = GET_include\<rparr>,
      \<lparr>url = ''/api/auth/tokens'', init = GET_include\<rparr>] \<and>
   promises (run [Call, Invalidate, Call] new_world) = [Pending, Pending] \<and>
   returned (run [Call, Invalidate, Call, Settle 0 (Resolved tokenResponse),
                  Settle 1 (Resolved unauthorized), Resume 0, Resume 1] new_world) =
     [(0, Some \<lparr>access_token = JStr ''AT'', id_token = JStr ''IT''\<rparr>), (1, None)] \<and>
   sent (run [Call, Invalidate, Call, Settle 0 (Resolved tokenResponse), Resume 0, Call] new_world) =
     [\<lparr>url = ''/api/auth/tokens'', init = GET_include\<rparr>,
      \<lparr>url = ''/api/auth/tokens'', init = GET_include\<rparr>,
      \<lparr>url = ''/api/auth/tokens'', init = GET_include\<rparr>] \<and>
   promises (run [Call, Invalidate, Call, Settle 0 (Resolved tokenResponse), Resume 0, Call] new_world) =
     [Fulfilled (Some \<lparr>access_token = JStr ''AT'', id_token = JStr ''IT''\<rparr>), Pending, Pending]"
proof -
  have u: "tokensIn (Resolved unauthorized) = None"
    by (simp add: tokensIn_def unauthorized_def ok_def)
  show ?thesis
    by (simp add: run_Nil run_Cons new_world_def new_AuthService_def tokensRequest_def
        settle_tokensIn tokensIn_tokenResponse u)
qed

lemma orderly_new: "orderly new_world"
  by (simp add: orderly_def new_world_def new_AuthService_def)

lemma orderly_frame:
  "waiting w' = waiting w \<Longrightarrow> returned w' = returned w \<Longrightarrow> calls w' = calls w \<Longrightarrow>
   refreshPromise (service w') = refreshPromise (service w) \<Longrightarrow> orderly w' = orderly w"
  by (simp add: orderly_def)

lemma orderly_step:
  assumes "orderly w" and "e \<noteq> Invalidate"
  shows "orderly (step e w)"
proof (cases e)
  case Call
  show ?thesis
  proof (cases "refreshPromise (service w)")
    case None
    with Call assms(1) show ?thesis
      by (auto simp: orderly_def less_Suc_eq; blast)
  next
    case (Some p)
    with Call assms(1) show ?thesis
      by (auto simp: orderly_def less_Suc_eq; blast)
  qed
next
  case (Settle p r)
  have "waiting (step e w) = waiting w" "returned (step e w) = returned w"
    "calls (step e w) = calls w"
    "refreshPromise (service (step e w)) = refreshPromise (service w)"
    unfolding Settle by (simp_all add: settle_tokensIn)
  then have "orderly (step e w) = orderly w" by (rule orderly_frame)
  with assms(1) show ?thesis by simp
next
  case (Resume c)
  show ?thesis
  proof (cases rule: step_Resume[of c w])
    case same
    with Resume assms(1) show ?thesis by simp
  next
    case (moved p created v)
    show ?thesis
    proof (cases created)
      case True
      with moved(1) have m: "(c, p, True) \<in> set (waiting w)" by simp
      with assms(1)
      have none: "\<And>c' p'. (c', p', True) \<in> set (waiting w) \<Longrightarrow> c' = c"
        unfolding orderly_def by blast
      have "orderly (w\<lparr>waiting := filter (\<lambda>(c', p, created). c' \<noteq> c) (waiting w),
                     returned := returned w @ [(c, v)],
                     service := (service w)\<lparr>refreshPromise := None\<rparr>\<rparr>)"
        using assms(1) moved(1) none unfolding orderly_def by (auto; blast)
      with True show ?thesis unfolding Resume moved(4) by simp
    next
      case False
      have "orderly (w\<lparr>waiting := filter (\<lambda>(c', p, created). c' \<noteq> c) (waiting w),
                     returned := returned w @ [(c, v)]\<rparr>)"
        using assms(1) moved(1) unfolding orderly_def by (auto; blast)
      with False show ?thesis unfolding Resume moved(4) by simp
    qed
  qed
next
  case Invalidate
  with assms(2) show ?thesis by simp
qed

lemma orderly_run: "orderly w \<Longrightarrow> Invalidate \<notin> set evs \<Longrightarrow> orderly (run evs w)"
proof (induction evs arbitrary: w)
  case Nil
  then show ?case by (simp add: run_Nil)
next
  case (Cons e evs)
  from Cons.prems have "orderly (step e w)" by (intro orderly_step) auto
  with Cons show ?case by (simp add: run_Cons)
qed

lemma quiet_reached:
  assumes "Invalidate \<notin> set evs" and "refreshPromise (service (run evs new_world)) = None"
  shows "quiet (run evs new_world)"
proof -
  have "orderly (run evs new_world)"
    using orderly_new assms(1) by (rule orderly_run)
  with assms(2) show ?thesis
    unfolding orderly_def quiet_def list_all_iff
    by (auto; metis (full_types))
qed

end
